theory Spec2Isabelle
  imports Complex_Main "HOL-Library.Word" "HOL-Library.Stream" "HOL-Library.Multiset"
begin

section \<open>itmx: OpenCVUtil\<close>


type_synonym uchar = "8 word"



text \<open>
  \<^verbatim>\<open>clamp_pixel_value\<close>: the two guarded assignments of the source, then the
  \<^verbatim>\<open>static_cast<unsigned char>\<close>, which truncates a value of [0,255].
\<close>

definition clamp_pixel_value :: "real \<Rightarrow> uchar" where
  "clamp_pixel_value pixelValue =
     (let p1 = (if pixelValue < 0 then 0 else pixelValue);
          p2 = (if p1 > 255 then 255 else p1)
      in word_of_int \<lfloor>p2\<rfloor>)"


text \<open>The row-major loop: input and output pointers advance together.\<close>

function row_major_loop ::
  "(nat \<Rightarrow> 'a) \<Rightarrow> ('a \<Rightarrow> real) \<Rightarrow> nat \<Rightarrow> nat \<Rightarrow> uchar list \<Rightarrow> uchar list" where
  "row_major_loop inputData scaleFunc pixelCount i outputData =
     (if i < pixelCount
      then row_major_loop inputData scaleFunc pixelCount (i + 1)
             (outputData[i := clamp_pixel_value (scaleFunc (inputData i))])
      else outputData)"
  by pat_completeness auto
termination
  by (relation "measure (\<lambda>(inputData, scaleFunc, pixelCount, i, outputData). pixelCount - i)") auto

declare row_major_loop.simps [simp del]






subsection \<open>The range-normalising functor\<close>

text \<open>
  The functor computes in \<^verbatim>\<open>float\<close>, and what it stores and returns depends on the
  rounding of the format and on its infinities and NaN. A \<^verbatim>\<open>float\<close> is a value of
  binary32 here: a finite number, an infinity or NaN. The two zeros are one value and so
  are all NaNs; the functor divides only by a difference \<open>x - y\<close>, which is the
  positive zero whenever it is a zero.
\<close>

datatype binary32 = Finite real | PlusInfinity | MinusInfinity | NaN

text \<open>
  Rounding to binary32, to the nearest representable number with ties to the even
  significand: a number of the binade \<open>[2^e, 2^(e+1))\<close> is rounded to a multiple of
  \<open>2^(e-23)\<close>, the binades below \<open>2^-126\<close> share the spacing \<open>2^-149\<close> of the subnormal
  numbers, and a result of magnitude \<open>2^128\<close> or more is an infinity.
\<close>

definition pow2 :: "int \<Rightarrow> real" where
  "pow2 k = (if 0 \<le> k then 2 ^ nat k else 1 / 2 ^ nat (- k))"

definition round_to_even :: "real \<Rightarrow> int" where
  "round_to_even x =
     (let n = \<lfloor>x\<rfloor>
      in if x - of_int n < 1 / 2 then n
         else if 1 / 2 < x - of_int n then n + 1
         else if even n then n else n + 1)"

definition exponent :: "real \<Rightarrow> int" where
  "exponent x = max \<lfloor>log 2 \<bar>x\<bar>\<rfloor> (- 126)"

definition round32 :: "real \<Rightarrow> binary32" where
  "round32 x =
     (if x = 0 then Finite 0
      else
        let ulp = pow2 (exponent x - 23);
            y = of_int (round_to_even (x / ulp)) * ulp
        in if 2 ^ 128 \<le> \<bar>y\<bar> then (if 0 < x then PlusInfinity else MinusInfinity)
           else Finite y)"

fun is_finite :: "binary32 \<Rightarrow> bool" where
  "is_finite (Finite x) = True"
| "is_finite other = False"

text \<open>
  The values that are numbers of the format: the infinities, NaN, and the finite numbers
  that rounding leaves as they are.
\<close>

fun is_float :: "binary32 \<Rightarrow> bool" where
  "is_float (Finite x) = (round32 x = Finite x)"
| "is_float other = True"

text \<open>
  The operators \<^verbatim>\<open><\<close>, \<^verbatim>\<open>+\<close>, \<^verbatim>\<open>-\<close>, \<^verbatim>\<open>*\<close> and \<^verbatim>\<open>/\<close> on
  \<^verbatim>\<open>float\<close>: each arithmetic operator rounds the exact result once. A comparison
  with NaN is false, and an operation without a value (\<open>\<infinity> - \<infinity>\<close>, \<open>0 * \<infinity>\<close>, \<open>0 / 0\<close>,
  \<open>\<infinity> / \<infinity>\<close>) or on NaN is NaN.
\<close>

fun float_less :: "binary32 \<Rightarrow> binary32 \<Rightarrow> bool" where
  "float_less (Finite x) (Finite y) = (x < y)"
| "float_less (Finite x) PlusInfinity = True"
| "float_less MinusInfinity (Finite y) = True"
| "float_less MinusInfinity PlusInfinity = True"
| "float_less a b = False"

fun float_add :: "binary32 \<Rightarrow> binary32 \<Rightarrow> binary32" where
  "float_add (Finite x) (Finite y) = round32 (x + y)"
| "float_add NaN b = NaN"
| "float_add a NaN = NaN"
| "float_add PlusInfinity MinusInfinity = NaN"
| "float_add MinusInfinity PlusInfinity = NaN"
| "float_add PlusInfinity b = PlusInfinity"
| "float_add MinusInfinity b = MinusInfinity"
| "float_add (Finite x) b = b"

fun float_sub :: "binary32 \<Rightarrow> binary32 \<Rightarrow> binary32" where
  "float_sub (Finite x) (Finite y) = round32 (x - y)"
| "float_sub NaN b = NaN"
| "float_sub a NaN = NaN"
| "float_sub PlusInfinity PlusInfinity = NaN"
| "float_sub MinusInfinity MinusInfinity = NaN"
| "float_sub PlusInfinity b = PlusInfinity"
| "float_sub MinusInfinity b = MinusInfinity"
| "float_sub (Finite x) PlusInfinity = MinusInfinity"
| "float_sub (Finite x) MinusInfinity = PlusInfinity"

fun float_mul :: "binary32 \<Rightarrow> binary32 \<Rightarrow> binary32" where
  "float_mul (Finite x) (Finite y) = round32 (x * y)"
| "float_mul NaN b = NaN"
| "float_mul a NaN = NaN"
| "float_mul (Finite x) PlusInfinity =
     (if x = 0 then NaN else if 0 < x then PlusInfinity else MinusInfinity)"
| "float_mul (Finite x) MinusInfinity =
     (if x = 0 then NaN else if 0 < x then MinusInfinity else PlusInfinity)"
| "float_mul PlusInfinity (Finite y) =
     (if y = 0 then NaN else if 0 < y then PlusInfinity else MinusInfinity)"
| "float_mul MinusInfinity (Finite y) =
     (if y = 0 then NaN else if 0 < y then MinusInfinity else PlusInfinity)"
| "float_mul PlusInfinity PlusInfinity = PlusInfinity"
| "float_mul PlusInfinity MinusInfinity = MinusInfinity"
| "float_mul MinusInfinity PlusInfinity = MinusInfinity"
| "float_mul MinusInfinity MinusInfinity = PlusInfinity"

fun float_div :: "binary32 \<Rightarrow> binary32 \<Rightarrow> binary32" where
  "float_div (Finite x) (Finite y) =
     (if y = 0
      then (if x = 0 then NaN else if 0 < x then PlusInfinity else MinusInfinity)
      else round32 (x / y))"
| "float_div NaN b = NaN"
| "float_div a NaN = NaN"
| "float_div (Finite x) b = Finite 0"
| "float_div PlusInfinity (Finite y) = (if 0 \<le> y then PlusInfinity else MinusInfinity)"
| "float_div MinusInfinity (Finite y) = (if 0 \<le> y then MinusInfinity else PlusInfinity)"
| "float_div a b = NaN"

text \<open>
  \<^verbatim>\<open>std::max_element\<close> and \<^verbatim>\<open>std::min_element\<close> as their loops: the position of
  the first largest (smallest) element of the \<open>n\<close> values at \<open>inputData\<close>, or the end
  position \<open>n\<close> when there is no value.
\<close>

function max_element_loop :: "(nat \<Rightarrow> binary32) \<Rightarrow> nat \<Rightarrow> nat \<Rightarrow> nat \<Rightarrow> nat" where
  "max_element_loop inputData n i largest =
     (if i < n
      then max_element_loop inputData n (i + 1)
             (if float_less (inputData largest) (inputData i) then i else largest)
      else largest)"
  by pat_completeness auto
termination
  by (relation "measure (\<lambda>(inputData, n, i, largest). n - i)") auto

declare max_element_loop.simps [simp del]

function min_element_loop :: "(nat \<Rightarrow> binary32) \<Rightarrow> nat \<Rightarrow> nat \<Rightarrow> nat \<Rightarrow> nat" where
  "min_element_loop inputData n i smallest =
     (if i < n
      then min_element_loop inputData n (i + 1)
             (if float_less (inputData i) (inputData smallest) then i else smallest)
      else smallest)"
  by pat_completeness auto
termination
  by (relation "measure (\<lambda>(inputData, n, i, smallest). n - i)") auto

declare min_element_loop.simps [simp del]

definition max_element :: "(nat \<Rightarrow> binary32) \<Rightarrow> nat \<Rightarrow> nat" where
  "max_element inputData n = (if n = 0 then n else max_element_loop inputData n 1 0)"

definition min_element :: "(nat \<Rightarrow> binary32) \<Rightarrow> nat \<Rightarrow> nat" where
  "min_element inputData n = (if n = 0 then n else min_element_loop inputData n 1 0)"

record ScaleDataToRange =
  m_minInputValue :: binary32
  m_minOutputValue :: binary32
  m_scalingFactor :: binary32

text \<open>
  The constructor raises nothing and checks nothing. It dereferences what the two
  algorithms return, which on an empty buffer is the end pointer: the value read at offset
  \<open>inputDataSize\<close> is then not a value of the buffer.
\<close>

definition ScaleDataToRange_ctor ::
  "(nat \<Rightarrow> binary32) \<Rightarrow> nat \<Rightarrow> binary32 \<Rightarrow> binary32 \<Rightarrow> ScaleDataToRange" where
  "ScaleDataToRange_ctor inputData inputDataSize minOutputValue maxOutputValue =
     (let maxInputValue = inputData (max_element inputData inputDataSize);
          minInputValue = inputData (min_element inputData inputDataSize)
      in \<lparr> m_minInputValue = minInputValue,
           m_minOutputValue = minOutputValue,
           m_scalingFactor = float_div (float_sub maxOutputValue minOutputValue)
                                       (float_sub maxInputValue minInputValue) \<rparr>)"

definition ScaleDataToRange_apply :: "ScaleDataToRange \<Rightarrow> binary32 \<Rightarrow> binary32" where
  "ScaleDataToRange_apply s inputValue =
     float_add (m_minOutputValue s)
       (float_mul (float_sub inputValue (m_minInputValue s)) (m_scalingFactor s))"

section \<open>spaint: SLAMComponentWithScoreForest\<close>

text \<open>
  The relocaliser reads three images of the same size: the RGB-D patch features, the leaf
  indices (unused by the functions below) and the forest predictions. Vectors of floats
  are tuples of reals, the vectors of bytes are tuples of 8-bit words, and the buffers
  behind \<^verbatim>\<open>GetData\<close> are functions from the linear pixel index. A prediction holds a
  fixed array of modes, of which the first \<open>nbModes\<close> are in use.
\<close>

type_synonym Vector3f = "real \<times> real \<times> real"
type_synonym Vector4f = "real \<times> real \<times> real \<times> real"
type_synonym Vector3u = "uchar \<times> uchar \<times> uchar"

text \<open>A 4x4 matrix is its 16 entries \<open>m\<close>, stored column by column.\<close>

type_synonym Matrix4f = "real list"

record RGBDPatchFeature =
  position :: Vector4f
  colour :: Vector4f

record GPUForestMode =
  mode_position :: Vector3f
  mode_colour :: Vector3u
  nbInliers :: nat

record GPUForestPrediction =
  modes :: "nat \<Rightarrow> GPUForestMode"
  nbModes :: nat

record ForestImages =
  noDims_width :: nat
  noDims_height :: nat
  patchFeaturesData :: "nat \<Rightarrow> RGBDPatchFeature"
  predictionsData :: "nat \<Rightarrow> GPUForestPrediction"

text \<open>
  A pose candidate. An inlier pairs a linear pixel index with a mode index, which is
  \<open>-1\<close> for the pixels added during the RANSAC rounds.
\<close>

record PoseCandidate =
  cameraPose :: Matrix4f
  inliers :: "(nat \<times> int) list"
  energy :: real
  cameraId :: int

text \<open>The tunables that the constructor sets.\<close>

record Settings =
  m_kInitRansac :: nat
  m_nbPointsForKabschBoostrap :: nat
  m_useAllModesPerLeafInPoseHypothesisGeneration :: bool
  m_checkMinDistanceBetweenSampledModes :: bool
  m_minDistanceBetweenSampledModes :: real
  m_checkRigidTransformationConstraint :: bool
  m_translationErrorMaxForCorrectPose :: real
  m_batchSizeRansac :: nat
  m_trimKinitAfterFirstEnergyComputation :: nat
  m_poseUpdate :: bool
  m_usePredictionCovarianceForPoseOptimization :: bool
  m_maxNbModesPerLeaf :: nat

definition constructed :: Settings where
  "constructed =
     \<lparr> m_kInitRansac = 1024,
       m_nbPointsForKabschBoostrap = 3,
       m_useAllModesPerLeafInPoseHypothesisGeneration = True,
       m_checkMinDistanceBetweenSampledModes = True,
       m_minDistanceBetweenSampledModes = 3 / 10,
       m_checkRigidTransformationConstraint = False,
       m_translationErrorMaxForCorrectPose = 5 / 100,
       m_batchSizeRansac = 500,
       m_trimKinitAfterFirstEnergyComputation = 64,
       m_poseUpdate = False,
       m_usePredictionCovarianceForPoseOptimization = True,
       m_maxNbModesPerLeaf = 10 \<rparr>"

subsection \<open>Vectors\<close>

fun w4 :: "Vector4f \<Rightarrow> real" where
  "w4 (x, y, z, w) = w"

fun toVector3 :: "Vector4f \<Rightarrow> Vector3f" where
  "toVector3 (x, y, z, w) = (x, y, z)"

fun vsub :: "Vector3f \<Rightarrow> Vector3f \<Rightarrow> Vector3f" where
  "vsub (ax, ay, az) (bx, by, bz) = (ax - bx, ay - by, az - bz)"

fun length_v :: "Vector3f \<Rightarrow> real" where
  "length_v (x, y, z) = sqrt (x * x + y * y + z * z)"

text \<open>
  The vector library's conversion of a float vector to bytes: each component is rounded
  half away from zero (\<^verbatim>\<open>(int)(x < 0 ? x - 0.5f : x + 0.5f)\<close>, the cast truncating
  towards zero) and clamped to [0, 255].
\<close>

definition toIntRound :: "real \<Rightarrow> int" where
  "toIntRound x = (if x < 0 then \<lceil>x - 1 / 2\<rceil> else \<lfloor>x + 1 / 2\<rfloor>)"

definition toUChar_component :: "real \<Rightarrow> uchar" where
  "toUChar_component x =
     (let vi = toIntRound x in word_of_int (if vi < 0 then 0 else if vi > 255 then 255 else vi))"

fun toUChar :: "Vector3f \<Rightarrow> Vector3u" where
  "toUChar (x, y, z) = (toUChar_component x, toUChar_component y, toUChar_component z)"

text \<open>
  The difference of two byte vectors is a byte vector again: each component is computed
  modulo 256.
\<close>

fun vsub_u :: "Vector3u \<Rightarrow> Vector3u \<Rightarrow> Vector3u" where
  "vsub_u (ax, ay, az) (bx, by, bz) = (ax - bx, ay - by, az - bz)"

text \<open>The product of a 4x4 matrix with a point: the affine map.\<close>

definition mat_mul :: "Matrix4f \<Rightarrow> Vector3f \<Rightarrow> Vector3f" where
  "mat_mul m v =
     (case v of (x, y, z) \<Rightarrow>
        (m ! 0 * x + m ! 4 * y + m ! 8 * z + m ! 12,
         m ! 1 * x + m ! 5 * y + m ! 9 * z + m ! 13,
         m ! 2 * x + m ! 6 * y + m ! 10 * z + m ! 14))"

subsection \<open>The random engine\<close>

text \<open>
  A random engine is the stream of the numbers it will produce. A uniform integer
  distribution on \<open>[a, b]\<close> takes the next number and reduces it into the range (which
  reduction the standard library uses is not fixed; no property below depends on it).
  The source needs \<open>a \<le> b\<close>: on an image of width or height 0 its behaviour is undefined.
\<close>

type_synonym mt19937 = "nat stream"

definition uniform_int_distribution :: "nat \<Rightarrow> nat \<Rightarrow> mt19937 \<Rightarrow> nat \<times> mt19937" where
  "uniform_int_distribution a b eng = (a + shd eng mod (b - a + 1), stl eng)"

subsection \<open>hypothesize_pose\<close>

text \<open>
  The colour test on the first point. \<^verbatim>\<open>colourDiff\<close> is declared a vector of unsigned
  bytes, so each of its components is the difference modulo 256, and \<^verbatim>\<open>abs\<close> is
  applied to that byte promoted to \<^verbatim>\<open>int\<close>.
\<close>

definition consistentColour :: "RGBDPatchFeature \<Rightarrow> GPUForestMode \<Rightarrow> bool" where
  "consistentColour selectedFeature selectedMode =
     (case vsub_u (toUChar (toVector3 (colour selectedFeature))) (mode_colour selectedMode) of
        (dx, dy, dz) \<Rightarrow> \<bar>uint dx\<bar> \<le> 30 \<and> \<bar>uint dy\<bar> \<le> 30 \<and> \<bar>uint dz\<bar> \<le> 30)"

text \<open>The world position of the mode chosen at a selected pixel.\<close>

definition mode_world_position :: "ForestImages \<Rightarrow> nat \<times> nat \<times> nat \<Rightarrow> Vector3f" where
  "mode_world_position img sel =
     (case sel of (x, y, modeIdx) \<Rightarrow>
        mode_position (modes (predictionsData img (y * noDims_width img + x)) modeIdx))"

definition feature_local_position :: "ForestImages \<Rightarrow> nat \<times> nat \<times> nat \<Rightarrow> Vector3f" where
  "feature_local_position img sel =
     (case sel of (x, y, modeIdx) \<Rightarrow>
        toVector3 (position (patchFeaturesData img (y * noDims_width img + x))))"

text \<open>
  The loop over the points already selected that looks for one closer than the minimum
  distance, leaving at the first it finds.
\<close>

fun farEnough ::
  "Settings \<Rightarrow> ForestImages \<Rightarrow> (nat \<times> nat \<times> nat) list \<Rightarrow> Vector3f \<Rightarrow> bool" where
  "farEnough cfg img [] worldPt = True"
| "farEnough cfg img (other # rest) worldPt =
     (let worldPtOther = mode_world_position img other;
          distOther = length_v (vsub worldPtOther worldPt)
      in if distOther < m_minDistanceBetweenSampledModes cfg then False
         else farEnough cfg img rest worldPt)"

text \<open>The optional rigidity test against every point already selected.\<close>

fun violatesConditions ::
  "Settings \<Rightarrow> ForestImages \<Rightarrow> (nat \<times> nat \<times> nat) list \<Rightarrow> Vector3f \<Rightarrow> Vector3f \<Rightarrow> bool"
  where
  "violatesConditions cfg img [] worldPtCur localCur = False"
| "violatesConditions cfg img (first # rest) worldPtCur localCur =
     (let worldPtFirst = mode_world_position img first;
          distWorld = length_v (vsub worldPtFirst worldPtCur);
          localPred = feature_local_position img first;
          distLocal = length_v (vsub localPred localCur)
      in if distLocal < m_minDistanceBetweenSampledModes cfg
            \<or> \<bar>distLocal - distWorld\<bar> > (1 / 2) * m_translationErrorMaxForCorrectPose cfg
         then True
         else violatesConditions cfg img rest worldPtCur localCur)"

text \<open>
  One pass through the body of the inner loop: the pixel and the mode are drawn, and each
  \<^verbatim>\<open>continue\<close> leaves the selection as it was.
\<close>

definition select_point ::
  "Settings \<Rightarrow> ForestImages \<Rightarrow> (nat \<times> nat \<times> nat) list \<Rightarrow> mt19937
     \<Rightarrow> (nat \<times> nat \<times> nat) list \<times> mt19937" where
  "select_point cfg img selectedPixelsAndModes eng =
     (case uniform_int_distribution 0 (noDims_width img - 1) eng of (x, eng1) \<Rightarrow>
      case uniform_int_distribution 0 (noDims_height img - 1) eng1 of (y, eng2) \<Rightarrow>
        let linearFeatureIdx = y * noDims_width img + x;
            selectedFeature = patchFeaturesData img linearFeatureIdx
        in if w4 (position selectedFeature) < 0 then (selectedPixelsAndModes, eng2)
           else
             let selectedPrediction = predictionsData img linearFeatureIdx
             in if nbModes selectedPrediction = 0 then (selectedPixelsAndModes, eng2)
                else
                  case (if m_useAllModesPerLeafInPoseHypothesisGeneration cfg
                        then uniform_int_distribution 0 (nbModes selectedPrediction - 1) eng2
                        else (0, eng2)) of
                    (selectedModeIdx, eng3) \<Rightarrow>
                      if selectedPixelsAndModes = []
                         \<and> \<not> consistentColour selectedFeature
                               (modes selectedPrediction selectedModeIdx)
                      then (selectedPixelsAndModes, eng3)
                      else if m_checkMinDistanceBetweenSampledModes cfg
                         \<and> \<not> farEnough cfg img selectedPixelsAndModes
                               (mode_position (modes selectedPrediction selectedModeIdx))
                      then (selectedPixelsAndModes, eng3)
                      else if m_checkRigidTransformationConstraint cfg
                         \<and> violatesConditions cfg img selectedPixelsAndModes
                               (mode_position (modes selectedPrediction selectedModeIdx))
                               (toVector3 (position selectedFeature))
                      then (selectedPixelsAndModes, eng3)
                      else (selectedPixelsAndModes @ [(x, y, selectedModeIdx)], eng3))"

definition maxIterationsInner :: nat where
  "maxIterationsInner = 6000"

definition maxIterationsOuter :: nat where
  "maxIterationsOuter = 20"

function select_points ::
  "Settings \<Rightarrow> ForestImages \<Rightarrow> nat \<Rightarrow> (nat \<times> nat \<times> nat) list \<Rightarrow> mt19937
     \<Rightarrow> (nat \<times> nat \<times> nat) list \<times> mt19937" where
  "select_points cfg img iterationsInner selectedPixelsAndModes eng =
     (if length selectedPixelsAndModes \<noteq> m_nbPointsForKabschBoostrap cfg
         \<and> iterationsInner < maxIterationsInner
      then (case select_point cfg img selectedPixelsAndModes eng of
              (selected', eng') \<Rightarrow>
                select_points cfg img (iterationsInner + 1) selected' eng')
      else (selectedPixelsAndModes, eng))"
  by pat_completeness auto
termination
  by (relation "measure (\<lambda>(cfg, img, iterationsInner, selected, eng).
                  maxIterationsInner - iterationsInner)") auto

declare select_points.simps [simp del]

text \<open>
  The candidate built from the selected points. \<open>Kabsch\<close> is the closed-form alignment of
  the helper library, a parameter here: it receives the local and the world points.
\<close>

definition make_candidate ::
  "(Vector3f list \<Rightarrow> Vector3f list \<Rightarrow> Matrix4f) \<Rightarrow> ForestImages
     \<Rightarrow> (nat \<times> nat \<times> nat) list \<Rightarrow> PoseCandidate" where
  "make_candidate Kabsch img selectedPixelsAndModes =
     (let localPoints = map (feature_local_position img) selectedPixelsAndModes;
          worldPoints = map (mode_world_position img) selectedPixelsAndModes;
          tmpInliers = map (\<lambda>(x, y, modeIdx). (y * noDims_width img + x, int modeIdx))
                         selectedPixelsAndModes
      in \<lparr> cameraPose = Kabsch localPoints worldPoints,
           inliers = tmpInliers,
           energy = 0,
           cameraId = - 1 \<rparr>)"

text \<open>
  The outer loop with the return statement inside it and the test that follows it. The
  result is the returned flag, the candidate \<open>res\<close> (written only on success) and the
  engine.
\<close>

function hypothesize_pose_loop ::
  "(Vector3f list \<Rightarrow> Vector3f list \<Rightarrow> Matrix4f) \<Rightarrow> Settings \<Rightarrow> ForestImages
     \<Rightarrow> bool \<Rightarrow> nat \<Rightarrow> PoseCandidate \<Rightarrow> mt19937 \<Rightarrow> bool \<times> PoseCandidate \<times> mt19937" where
  "hypothesize_pose_loop Kabsch cfg img foundIsometricMapping iterationsOuter res eng =
     (if \<not> foundIsometricMapping \<and> iterationsOuter < maxIterationsOuter
      then (case select_points cfg img 0 [] eng of
              (selectedPixelsAndModes, eng') \<Rightarrow>
                if length selectedPixelsAndModes \<noteq> m_nbPointsForKabschBoostrap cfg
                then (False, res, eng')
                else hypothesize_pose_loop Kabsch cfg img True (iterationsOuter + 1)
                       (make_candidate Kabsch img selectedPixelsAndModes) eng')
      else (iterationsOuter < maxIterationsOuter, res, eng))"
  by pat_completeness auto
termination
  by (relation "measure (\<lambda>(Kabsch, cfg, img, found, iterationsOuter, res, eng).
                  (if found then 0 else 1) + (maxIterationsOuter - iterationsOuter))") auto

declare hypothesize_pose_loop.simps [simp del]

definition hypothesize_pose ::
  "(Vector3f list \<Rightarrow> Vector3f list \<Rightarrow> Matrix4f) \<Rightarrow> Settings \<Rightarrow> ForestImages
     \<Rightarrow> PoseCandidate \<Rightarrow> mt19937 \<Rightarrow> bool \<times> PoseCandidate \<times> mt19937" where
  "hypothesize_pose Kabsch cfg img res eng =
     hypothesize_pose_loop Kabsch cfg img False 0 res eng"

text \<open>
  The body of the parallel loop of \<^verbatim>\<open>generate_pose_candidates\<close> for iteration \<open>i\<close>,
  run on the engine of its thread with the fresh local \<open>candidate\<close>: the candidate that
  it appends to the shared list, if any.
\<close>

definition generate_pose_candidate ::
  "(Vector3f list \<Rightarrow> Vector3f list \<Rightarrow> Matrix4f) \<Rightarrow> Settings \<Rightarrow> ForestImages
     \<Rightarrow> nat \<Rightarrow> PoseCandidate \<Rightarrow> mt19937 \<Rightarrow> PoseCandidate option \<times> mt19937" where
  "generate_pose_candidate Kabsch cfg img i candidate eng =
     (case hypothesize_pose Kabsch cfg img candidate eng of
        (found, candidate', eng') \<Rightarrow>
          if found then
            if inliers candidate' \<noteq> [] then (Some (candidate' \<lparr> cameraId := int i \<rparr>), eng')
            else (None, eng')
          else (None, eng'))"

text \<open>
  What the specification describes instead: up to 20 outer attempts, each of up to 6000
  passes, failing only if no outer attempt assembles its points.
\<close>

fun spec_hypothesize_attempts ::
  "(Vector3f list \<Rightarrow> Vector3f list \<Rightarrow> Matrix4f) \<Rightarrow> Settings \<Rightarrow> ForestImages
     \<Rightarrow> nat \<Rightarrow> PoseCandidate \<Rightarrow> mt19937 \<Rightarrow> bool \<times> PoseCandidate \<times> mt19937" where
  "spec_hypothesize_attempts Kabsch cfg img 0 res eng = (False, res, eng)"
| "spec_hypothesize_attempts Kabsch cfg img (Suc attempts) res eng =
     (case select_points cfg img 0 [] eng of
        (selectedPixelsAndModes, eng') \<Rightarrow>
          if length selectedPixelsAndModes = m_nbPointsForKabschBoostrap cfg
          then (True, make_candidate Kabsch img selectedPixelsAndModes, eng')
          else spec_hypothesize_attempts Kabsch cfg img attempts res eng')"

definition spec_hypothesize_pose ::
  "(Vector3f list \<Rightarrow> Vector3f list \<Rightarrow> Matrix4f) \<Rightarrow> Settings \<Rightarrow> ForestImages
     \<Rightarrow> PoseCandidate \<Rightarrow> mt19937 \<Rightarrow> bool \<times> PoseCandidate \<times> mt19937" where
  "spec_hypothesize_pose Kabsch cfg img res eng =
     spec_hypothesize_attempts Kabsch cfg img 20 res eng"

subsection \<open>Sampling pixels for the RANSAC rounds\<close>

text \<open>
  One pass through the body of the \<^verbatim>\<open>while\<close> loop of
  \<^verbatim>\<open>sample_pixels_for_ransac\<close>: the new value of \<^verbatim>\<open>validIndex\<close>, the mask, the
  sampled pixels and the engine. The mask is either empty (no pixel is excluded) or has an
  entry for every pixel.
\<close>

definition sample_pixel ::
  "ForestImages \<Rightarrow> bool list \<Rightarrow> (nat \<times> nat) list \<Rightarrow> mt19937
     \<Rightarrow> bool \<times> bool list \<times> (nat \<times> nat) list \<times> mt19937" where
  "sample_pixel img maskSampledPixels sampledPixelIdx eng =
     (case uniform_int_distribution 0 (noDims_width img - 1) eng of (sx, eng1) \<Rightarrow>
      case uniform_int_distribution 0 (noDims_height img - 1) eng1 of (sy, eng2) \<Rightarrow>
        let linearIdx = sy * noDims_width img + sx
        in if w4 (position (patchFeaturesData img linearIdx)) \<ge> 0
           then
             let selectedPrediction = predictionsData img linearIdx
             in if nbModes selectedPrediction > 0
                then
                  let validIndex = (maskSampledPixels = [] \<or> \<not> maskSampledPixels ! linearIdx)
                  in if validIndex
                     then (True,
                           (if maskSampledPixels \<noteq> []
                            then maskSampledPixels[linearIdx := True]
                            else maskSampledPixels),
                           sampledPixelIdx @ [(sx, sy)], eng2)
                     else (False, maskSampledPixels, sampledPixelIdx, eng2)
                else (False, maskSampledPixels, sampledPixelIdx, eng2)
           else (False, maskSampledPixels, sampledPixelIdx, eng2))"

function sample_valid_pixel ::
  "ForestImages \<Rightarrow> bool \<Rightarrow> nat \<Rightarrow> bool list \<Rightarrow> (nat \<times> nat) list \<Rightarrow> mt19937
     \<Rightarrow> bool \<times> bool list \<times> (nat \<times> nat) list \<times> mt19937" where
  "sample_valid_pixel img validIndex innerIterations maskSampledPixels sampledPixelIdx eng =
     (if \<not> validIndex \<and> innerIterations < 50
      then (case sample_pixel img maskSampledPixels sampledPixelIdx eng of
              (validIndex', mask', sampled', eng') \<Rightarrow>
                sample_valid_pixel img validIndex' (innerIterations + 1) mask' sampled' eng')
      else (validIndex, maskSampledPixels, sampledPixelIdx, eng))"
  by pat_completeness auto
termination
  by (relation "measure (\<lambda>(img, validIndex, innerIterations, mask, sampled, eng).
                  50 - innerIterations)") auto

declare sample_valid_pixel.simps [simp del]

function sample_pixels_loop ::
  "ForestImages \<Rightarrow> nat \<Rightarrow> nat \<Rightarrow> bool list \<Rightarrow> (nat \<times> nat) list \<Rightarrow> mt19937
     \<Rightarrow> bool list \<times> (nat \<times> nat) list \<times> mt19937" where
  "sample_pixels_loop img i batchSize maskSampledPixels sampledPixelIdx eng =
     (if i < batchSize
      then (case sample_valid_pixel img False 0 maskSampledPixels sampledPixelIdx eng of
              (validIndex, mask', sampled', eng') \<Rightarrow>
                if \<not> validIndex then (mask', sampled', eng')
                else sample_pixels_loop img (i + 1) batchSize mask' sampled' eng')
      else (maskSampledPixels, sampledPixelIdx, eng))"
  by pat_completeness auto
termination
  by (relation "measure (\<lambda>(img, i, batchSize, mask, sampled, eng). batchSize - i)") auto

declare sample_pixels_loop.simps [simp del]

definition sample_pixels_for_ransac ::
  "ForestImages \<Rightarrow> bool list \<Rightarrow> (nat \<times> nat) list \<Rightarrow> mt19937 \<Rightarrow> nat
     \<Rightarrow> bool list \<times> (nat \<times> nat) list \<times> mt19937" where
  "sample_pixels_for_ransac img maskSampledPixels sampledPixelIdx eng batchSize =
     sample_pixels_loop img 0 batchSize maskSampledPixels sampledPixelIdx eng"

text \<open>Every candidate receives every sampled pixel as an inlier without a mode.\<close>

definition update_inliers_for_optimization ::
  "ForestImages \<Rightarrow> (nat \<times> nat) list \<Rightarrow> PoseCandidate list \<Rightarrow> PoseCandidate list" where
  "update_inliers_for_optimization img sampledPixelIdx poseCandidates =
     map (\<lambda>candidate. candidate \<lparr> inliers := inliers candidate
            @ map (\<lambda>(x, y). (y * noDims_width img + x, - 1)) sampledPixelIdx \<rparr>)
         poseCandidates"

subsection \<open>The energy of a pose\<close>

text \<open>
  The three \<^verbatim>\<open>std::runtime_error\<close>s of the component, by their messages:
  "prediction has no valid modes", "mode has no inliers" and "not updated yet".
\<close>

datatype error = NoValidModes | ModeHasNoInliers | NotUpdatedYet

text \<open>
  The best-mode query of a prediction belongs to the forest backend and is a parameter:
  for a prediction and a point it gives the index of the best mode, negative if there is
  none, and the energy of that mode.
\<close>

type_synonym best_mode_query = "GPUForestPrediction \<Rightarrow> Vector3f \<Rightarrow> int \<times> real"

text \<open>
  The energy of one inlier after the two divisions and the floor. For a prediction
  without modes the quotient of the source is not a finite float; the properties below
  are stated for predictions with at least one mode.
\<close>

definition normalised_energy :: "GPUForestPrediction \<Rightarrow> int \<Rightarrow> real \<Rightarrow> real" where
  "normalised_energy pred argmax energy0 =
     (let energy1 = energy0 / real (nbModes pred);
          energy2 = energy1 / real (nbInliers (modes pred (nat argmax)))
      in energy2)"

definition floored_energy :: "real \<Rightarrow> real" where
  "floored_energy energy2 = (if energy2 < 1 / 10 ^ 6 then 1 / 10 ^ 6 else energy2)"

fun compute_pose_energy_loop ::
  "best_mode_query \<Rightarrow> ForestImages \<Rightarrow> Matrix4f \<Rightarrow> (nat \<times> int) list \<Rightarrow> real \<Rightarrow> error + real"
  where
  "compute_pose_energy_loop get_best_mode_and_energy img candidateCameraPose [] totalEnergy =
     Inr totalEnergy"
| "compute_pose_energy_loop get_best_mode_and_energy img candidateCameraPose (inlier # rest)
     totalEnergy =
     (let linearIdx = fst inlier;
          localPixel = toVector3 (position (patchFeaturesData img linearIdx));
          projectedPixel = mat_mul candidateCameraPose localPixel;
          pred = predictionsData img linearIdx
      in case get_best_mode_and_energy pred projectedPixel of
           (argmax, energy0) \<Rightarrow>
             if argmax < 0 then Inl NoValidModes
             else if nbInliers (modes pred (nat argmax)) = 0 then Inl ModeHasNoInliers
             else compute_pose_energy_loop get_best_mode_and_energy img candidateCameraPose rest
                    (totalEnergy
                      + - log 10 (floored_energy (normalised_energy pred argmax energy0))))"

definition compute_pose_energy ::
  "best_mode_query \<Rightarrow> ForestImages \<Rightarrow> Matrix4f \<Rightarrow> (nat \<times> int) list \<Rightarrow> error + real" where
  "compute_pose_energy get_best_mode_and_energy img candidateCameraPose inliersIndices =
     (case compute_pose_energy_loop get_best_mode_and_energy img candidateCameraPose
             inliersIndices 0 of
        Inl e \<Rightarrow> Inl e
      | Inr totalEnergy \<Rightarrow> Inr (totalEnergy / real (length inliersIndices)))"

text \<open>
  An exception that leaves an iteration of a parallel loop is not handed to the caller of
  the loop: no handler outside the loop can receive it, and the run of the program ends
  there. The loops that score the candidates and that refine their poses are such loops,
  and both \<^verbatim>\<open>compute_pose_energy\<close> and \<^verbatim>\<open>update_candidate_pose\<close> are called only
  from within them. Which of several raising iterations ends the run depends on the
  threads, so the outcome records only that the run has ended. (Compiled without the
  pragmas, the exception passes through the callers below instead, none of which handles
  it, and their run ends at the same places.)
\<close>

datatype fatal = ProcessTerminated

text \<open>
  Scoring every candidate, then sorting by ascending energy. The candidates are scored
  independently of each other, by the iterations of a parallel loop; the run ends if any
  iteration raises.
\<close>

fun compute_energies ::
  "best_mode_query \<Rightarrow> ForestImages \<Rightarrow> PoseCandidate list \<Rightarrow> fatal + PoseCandidate list" where
  "compute_energies get_best_mode_and_energy img [] = Inr []"
| "compute_energies get_best_mode_and_energy img (candidate # rest) =
     (case compute_pose_energy get_best_mode_and_energy img (cameraPose candidate)
             (inliers candidate) of
        Inl e \<Rightarrow> Inl ProcessTerminated
      | Inr en \<Rightarrow>
          (case compute_energies get_best_mode_and_energy img rest of
             Inl e \<Rightarrow> Inl e
           | Inr rest' \<Rightarrow> Inr (candidate \<lparr> energy := en \<rparr> # rest')))"

definition compute_and_sort_energies ::
  "best_mode_query \<Rightarrow> ForestImages \<Rightarrow> PoseCandidate list \<Rightarrow> fatal + PoseCandidate list" where
  "compute_and_sort_energies get_best_mode_and_energy img poseCandidates =
     (case compute_energies get_best_mode_and_energy img poseCandidates of
        Inl e \<Rightarrow> Inl e
      | Inr scored \<Rightarrow> Inr (sort_key energy scored))"

subsection \<open>The continuous refinement\<close>

definition update_candidate_pose :: "PoseCandidate \<Rightarrow> error + bool \<times> PoseCandidate" where
  "update_candidate_pose poseCandidate = Inl NotUpdatedYet"

fun update_candidate_poses :: "PoseCandidate list \<Rightarrow> fatal + PoseCandidate list" where
  "update_candidate_poses [] = Inr []"
| "update_candidate_poses (candidate # rest) =
     (case update_candidate_pose candidate of
        Inl e \<Rightarrow> Inl ProcessTerminated
      | Inr (updated, candidate') \<Rightarrow>
          (case update_candidate_poses rest of
             Inl e \<Rightarrow> Inl e
           | Inr rest' \<Rightarrow> Inr (candidate' # rest')))"

subsection \<open>estimate_pose\<close>

text \<open>
  The first trim, run when more candidates were generated than are kept after the first
  scoring.
\<close>

definition first_trim ::
  "best_mode_query \<Rightarrow> Settings \<Rightarrow> ForestImages \<Rightarrow> PoseCandidate list \<Rightarrow> mt19937
     \<Rightarrow> fatal + PoseCandidate list \<times> mt19937" where
  "first_trim get_best_mode_and_energy cfg img candidates random_engine =
     (if m_trimKinitAfterFirstEnergyComputation cfg < length candidates
      then
        let nbSamplesPerCamera = length (inliers (candidates ! 0))
        in case sample_pixels_for_ransac img [] [] random_engine (m_batchSizeRansac cfg) of
             (dummy_vector, sampledPixelIdx, eng') \<Rightarrow>
               (case compute_and_sort_energies get_best_mode_and_energy img
                       (update_inliers_for_optimization img sampledPixelIdx candidates) of
                  Inl e \<Rightarrow> Inl e
                | Inr sortedCandidates \<Rightarrow>
                    let kept = take (m_trimKinitAfterFirstEnergyComputation cfg) sortedCandidates
                    in Inr (if m_trimKinitAfterFirstEnergyComputation cfg > 1
                            then map (\<lambda>candidate.
                                   if length (inliers candidate) > nbSamplesPerCamera
                                   then candidate \<lparr> inliers :=
                                          take nbSamplesPerCamera (inliers candidate) \<rparr>
                                   else candidate) kept
                            else kept, eng'))
      else Inr (candidates, random_engine))"

text \<open>One round of the main loop: sample, extend, (refine,) score, sort and halve.\<close>

definition ransac_round ::
  "best_mode_query \<Rightarrow> Settings \<Rightarrow> ForestImages \<Rightarrow> PoseCandidate list \<Rightarrow> bool list \<Rightarrow> mt19937
     \<Rightarrow> fatal + PoseCandidate list \<times> bool list \<times> mt19937" where
  "ransac_round get_best_mode_and_energy cfg img candidates maskSampledPixels random_engine =
     (case sample_pixels_for_ransac img maskSampledPixels [] random_engine
             (m_batchSizeRansac cfg) of
        (mask', sampledPixelIdx, eng') \<Rightarrow>
          (case (if m_poseUpdate cfg
                 then update_candidate_poses
                        (update_inliers_for_optimization img sampledPixelIdx candidates)
                 else Inr (update_inliers_for_optimization img sampledPixelIdx candidates)) of
             Inl e \<Rightarrow> Inl e
           | Inr extended \<Rightarrow>
               (case compute_and_sort_energies get_best_mode_and_energy img extended of
                  Inl e \<Rightarrow> Inl e
                | Inr sortedCandidates \<Rightarrow> Inr (take (length sortedCandidates div 2) sortedCandidates, mask', eng'))))"

text \<open>
  The main loop has no bound of its own, so it is a partial function: \<open>None\<close> would be a
  run that never leaves the loop.
\<close>

partial_function (option) ransac_loop ::
  "best_mode_query \<Rightarrow> Settings \<Rightarrow> ForestImages \<Rightarrow> PoseCandidate list \<Rightarrow> bool list \<Rightarrow> mt19937
     \<Rightarrow> (fatal + PoseCandidate list) option" where
  "ransac_loop get_best_mode_and_energy cfg img candidates maskSampledPixels random_engine =
     (if length candidates > 1
      then (case ransac_round get_best_mode_and_energy cfg img candidates maskSampledPixels
                   random_engine of
              Inl e \<Rightarrow> Some (Inl e)
            | Inr (candidates', mask', eng') \<Rightarrow>
                ransac_loop get_best_mode_and_energy cfg img candidates' mask' eng')
      else Some (Inr candidates))"

text \<open>
  \<^verbatim>\<open>estimate_pose\<close>, from the list that \<^verbatim>\<open>generate_pose_candidates\<close> has filled
  (its threads append in an order that is not determined, so the list is an argument) and
  the engine of the function.
\<close>

definition estimate_pose ::
  "best_mode_query \<Rightarrow> Settings \<Rightarrow> ForestImages \<Rightarrow> PoseCandidate list \<Rightarrow> mt19937
     \<Rightarrow> (fatal + PoseCandidate option) option" where
  "estimate_pose get_best_mode_and_energy cfg img generated random_engine =
     (case first_trim get_best_mode_and_energy cfg img generated random_engine of
        Inl e \<Rightarrow> Some (Inl e)
      | Inr (candidates, eng') \<Rightarrow>
          (case ransac_loop get_best_mode_and_energy cfg img candidates
                  (replicate (noDims_width img * noDims_height img) False) eng' of
             None \<Rightarrow> None
           | Some (Inl e) \<Rightarrow> Some (Inl e)
           | Some (Inr final) \<Rightarrow>
               Some (Inr (if final \<noteq> [] then Some (final ! 0) else None))))"

subsection \<open>process_relocalisation\<close>

datatype TrackingResult = TRACKING_GOOD | TRACKING_POOR | TRACKING_FAILED

text \<open>
  The reachable part of \<^verbatim>\<open>process_relocalisation\<close>. The count of valid depth pixels,
  the images that \<^verbatim>\<open>evaluate_forest\<close> has filled and the tracker run from the pose of
  a candidate are arguments.
\<close>

definition process_relocalisation ::
  "best_mode_query \<Rightarrow> Settings \<Rightarrow> ForestImages \<Rightarrow> PoseCandidate list \<Rightarrow> mt19937 \<Rightarrow> nat
     \<Rightarrow> (PoseCandidate \<Rightarrow> TrackingResult) \<Rightarrow> TrackingResult
     \<Rightarrow> (fatal + TrackingResult) option" where
  "process_relocalisation get_best_mode_and_energy cfg img generated random_engine
       countValidDepths track trackingResult =
     (if trackingResult = TRACKING_FAILED
      then if countValidDepths < max (m_nbPointsForKabschBoostrap cfg) (m_batchSizeRansac cfg)
           then Some (Inr trackingResult)
           else (case estimate_pose get_best_mode_and_energy cfg img generated random_engine of
                   None \<Rightarrow> None
                 | Some (Inl e) \<Rightarrow> Some (Inl e)
                 | Some (Inr (Some pose_candidate)) \<Rightarrow> Some (Inr (track pose_candidate))
                 | Some (Inr None) \<Rightarrow> Some (Inr trackingResult))
      else Some (Inr trackingResult))"

subsection \<open>Predicates of the properties\<close>

text \<open>The world position of the mode that an inlier of a hypothesis names.\<close>

definition inlier_world_position :: "ForestImages \<Rightarrow> nat \<times> int \<Rightarrow> Vector3f" where
  "inlier_world_position img inlier =
     mode_position (modes (predictionsData img (fst inlier)) (nat (snd inlier)))"

text \<open>
  The points of a selection are far apart when no later point is closer than the minimum
  distance to an earlier one.
\<close>

definition far_apart :: "Settings \<Rightarrow> ForestImages \<Rightarrow> (nat \<times> nat \<times> nat) list \<Rightarrow> bool" where
  "far_apart cfg img selected \<longleftrightarrow>
     (\<forall>j < length selected. \<forall>i < j.
        \<not> length_v (vsub (mode_world_position img (selected ! i))
                         (mode_world_position img (selected ! j)))
            < m_minDistanceBetweenSampledModes cfg)"

text \<open>
  A pixel is a valid source of inliers when its feature has a non-negative fourth position
  component and its prediction has at least one mode.
\<close>

definition valid_inlier_source :: "ForestImages \<Rightarrow> nat \<Rightarrow> bool" where
  "valid_inlier_source img linearIdx \<longleftrightarrow>
     0 \<le> w4 (position (patchFeaturesData img linearIdx))
     \<and> 0 < nbModes (predictionsData img linearIdx)"

definition inliers_valid :: "ForestImages \<Rightarrow> PoseCandidate \<Rightarrow> bool" where
  "inliers_valid img candidate \<longleftrightarrow>
     (\<forall>inlier \<in> set (inliers candidate). valid_inlier_source img (fst inlier))"

definition pixels_valid :: "ForestImages \<Rightarrow> (nat \<times> nat) list \<Rightarrow> bool" where
  "pixels_valid img sampledPixelIdx \<longleftrightarrow>
     (\<forall>s \<in> set sampledPixelIdx. valid_inlier_source img (snd s * noDims_width img + fst s))"

text \<open>
  An inlier violates the invariants of the scoring when the best-mode query at its pixel,
  asked for the projection of its local point, returns a negative mode index or a mode
  that records no supporting inliers.
\<close>

definition violates_invariant ::
  "best_mode_query \<Rightarrow> ForestImages \<Rightarrow> Matrix4f \<Rightarrow> nat \<times> int \<Rightarrow> bool" where
  "violates_invariant q img candidateCameraPose inlier =
     (case q (predictionsData img (fst inlier))
             (mat_mul candidateCameraPose
                (toVector3 (position (patchFeaturesData img (fst inlier))))) of
        (argmax, energy0) \<Rightarrow>
          argmax < 0 \<or> nbInliers (modes (predictionsData img (fst inlier)) (nat argmax)) = 0)"

text \<open>
  Some inlier of some candidate violates the invariants of the scoring, at the pose of
  that candidate.
\<close>

definition scoring_violation ::
  "best_mode_query \<Rightarrow> ForestImages \<Rightarrow> PoseCandidate list \<Rightarrow> bool" where
  "scoring_violation q img candidates \<longleftrightarrow>
     (\<exists>c \<in> set candidates. \<exists>inlier \<in> set (inliers c).
        violates_invariant q img (cameraPose c) inlier)"

text \<open>
  The normalised energy that the scoring loop computes for an inlier, and what the inlier
  adds to the sum: minus the decimal logarithm of the normalised energy after the floor.
\<close>

definition inlier_normalised_energy ::
  "best_mode_query \<Rightarrow> ForestImages \<Rightarrow> Matrix4f \<Rightarrow> nat \<times> int \<Rightarrow> real" where
  "inlier_normalised_energy q img candidateCameraPose inlier =
     (case q (predictionsData img (fst inlier))
             (mat_mul candidateCameraPose
                (toVector3 (position (patchFeaturesData img (fst inlier))))) of
        (argmax, energy0) \<Rightarrow> normalised_energy (predictionsData img (fst inlier)) argmax energy0)"

definition inlier_contribution ::
  "best_mode_query \<Rightarrow> ForestImages \<Rightarrow> Matrix4f \<Rightarrow> nat \<times> int \<Rightarrow> real" where
  "inlier_contribution q img candidateCameraPose inlier =
     - log 10 (floored_energy (inlier_normalised_energy q img candidateCameraPose inlier))"

text \<open>
  The two divisors of the normalisation of an inlier are not zero: its prediction has a
  mode and the matched mode has a supporting inlier. (With a zero divisor the quotient of
  the source is an infinity or a NaN, not the \<open>0\<close> of a division by zero in HOL.)
\<close>

definition divisors_nonzero ::
  "best_mode_query \<Rightarrow> ForestImages \<Rightarrow> Matrix4f \<Rightarrow> nat \<times> int \<Rightarrow> bool" where
  "divisors_nonzero q img candidateCameraPose inlier =
     (case q (predictionsData img (fst inlier))
             (mat_mul candidateCameraPose
                (toVector3 (position (patchFeaturesData img (fst inlier))))) of
        (argmax, energy0) \<Rightarrow>
          0 < nbModes (predictionsData img (fst inlier))
          \<and> 0 < nbInliers (modes (predictionsData img (fst inlier)) (nat argmax)))"



subsection \<open>Example inputs\<close>

text \<open>
  An image of one pixel whose feature has the colour \<open>c\<close> in each channel and whose
  prediction has one mode of colour \<open>m\<close> in each channel.
\<close>

definition one_pixel_image :: "real \<Rightarrow> uchar \<Rightarrow> ForestImages" where
  "one_pixel_image c m =
     \<lparr> noDims_width = 1, noDims_height = 1,
       patchFeaturesData = (\<lambda>i. \<lparr> position = (0, 0, 1, 1), colour = (c, c, c, 255) \<rparr>),
       predictionsData = (\<lambda>i. \<lparr> modes = (\<lambda>k. \<lparr> mode_position = (0, 0, 0),
                                     mode_colour = (m, m, m), nbInliers = 1 \<rparr>),
                                   nbModes = 1 \<rparr>) \<rparr>"

text \<open>
  A row of four pixels. Pixel 0 has no depth and no mode; pixels 1, 2 and 3 are valid,
  black, and each has one black mode, at 0 m, 1 m and 2 m along the first axis of the world,
  which are also their local positions.
\<close>

definition row_image :: ForestImages where
  "row_image =
     \<lparr> noDims_width = 4, noDims_height = 1,
       patchFeaturesData = (\<lambda>i. if i = 0
          then \<lparr> position = (0, 0, 0, - 1), colour = (0, 0, 0, 255) \<rparr>
          else \<lparr> position = (real i - 1, 0, 0, 1), colour = (0, 0, 0, 255) \<rparr>),
       predictionsData = (\<lambda>i. \<lparr> modes = (\<lambda>k. \<lparr> mode_position = (real i - 1, 0, 0),
                                     mode_colour = (0, 0, 0), nbInliers = 1 \<rparr>),
                                   nbModes = (if i = 0 then 0 else 1) \<rparr>) \<rparr>"

text \<open>An engine that draws the pixels 1, 2 and 3 of the row, each with mode 0.\<close>

definition row_engine :: mt19937 where
  "row_engine = 1 ## 0 ## 0 ## 2 ## 0 ## 0 ## 3 ## 0 ## 0 ## sconst 0"

text \<open>
  A candidate as it is before \<^verbatim>\<open>hypothesize_pose\<close> writes it, the identity pose, and
  an alignment that returns the identity: on the row image local and world positions
  agree.
\<close>

definition blank_candidate :: PoseCandidate where
  "blank_candidate = \<lparr> cameraPose = replicate 16 0, inliers = [], energy = 0, cameraId = 0 \<rparr>"

definition identity_pose :: Matrix4f where
  "identity_pose = [1, 0, 0, 0,  0, 1, 0, 0,  0, 0, 1, 0,  0, 0, 0, 1]"

definition identity_Kabsch :: "Vector3f list \<Rightarrow> Vector3f list \<Rightarrow> Matrix4f" where
  "identity_Kabsch localPoints worldPoints = identity_pose"

text \<open>A best-mode query that finds mode 0 with energy 1 for every point.\<close>

definition unit_query :: best_mode_query where
  "unit_query pred v = (0, 1)"

text \<open>A best-mode query that finds no valid mode.\<close>

definition no_mode_query :: best_mode_query where
  "no_mode_query pred v = (- 1, 0)"

text \<open>A candidate on the row image, with the three valid pixels as its inliers.\<close>

definition row_candidate :: "int \<Rightarrow> PoseCandidate" where
  "row_candidate n =
     \<lparr> cameraPose = identity_pose, inliers = [(1, 0), (2, 0), (3, 0)], energy = 0,
       cameraId = n \<rparr>"

text \<open>A best-mode query that finds mode 0 with energy 100 for every point.\<close>

definition sharp_query :: best_mode_query where
  "sharp_query pred v = (0, 100)"



section \<open>spaint: CollaborativePoseOptimiser\<close>

text \<open>
  Only the declarations of the optimiser are in the sources. The public
  \<^verbatim>\<open>add_relative_transform_sample\<close> is declared to return \<^verbatim>\<open>void\<close>, the private
  \<^verbatim>\<open>add_relative_transform_sample_sub\<close> to return \<^verbatim>\<open>bool\<close>, "true, if the cluster
  to which the sample was added is now a confident one, or false otherwise". What the
  bodies do is taken from the specification. The pose type, the confidence threshold,
  the closeness test, the representative pose of a cluster and the inversion of a pose
  are parameters; a cluster is the list of its samples.
\<close>

record 'p OptimiserParams =
  confidence_threshold :: nat
  poses_close :: "'p \<Rightarrow> 'p \<Rightarrow> bool"
  representative_pose :: "'p list \<Rightarrow> 'p"
  inverse_pose :: "'p \<Rightarrow> 'p"

record 'p CollaborativePoseOptimiser =
  m_primarySceneID :: string
  m_relativeTransformSamples :: "(string \<times> string) \<rightharpoonup> 'p list list"
  m_relativeTransformSamplesChanged :: bool
  m_sceneIDs :: "string set"

text \<open>
  Modelled from the spec: the body of the clustering step, which is not in the sources.
  The sample joins the first cluster whose representative pose it is close to, and
  otherwise starts a new cluster; the flag tells whether the cluster that received the
  sample has now reached the confidence threshold.
\<close>

fun add_to_clusters ::
  "'p OptimiserParams \<Rightarrow> 'p list list \<Rightarrow> 'p \<Rightarrow> bool \<times> 'p list list" where
  "add_to_clusters P [] sample = (confidence_threshold P \<le> length [sample], [[sample]])"
| "add_to_clusters P (cluster # rest) sample =
     (if poses_close P (representative_pose P cluster) sample
      then (confidence_threshold P \<le> length (cluster @ [sample]), (cluster @ [sample]) # rest)
      else (case add_to_clusters P rest sample of
              (confident, rest') \<Rightarrow> (confident, cluster # rest')))"

text \<open>
  Modelled from the spec: the body of \<^verbatim>\<open>add_relative_transform_sample_sub\<close>, which is
  not in the sources; its result type is the declared one.
\<close>

definition add_relative_transform_sample_sub ::
  "'p OptimiserParams \<Rightarrow> 'p CollaborativePoseOptimiser \<Rightarrow> string \<Rightarrow> string \<Rightarrow> 'p \<Rightarrow> 'm
     \<Rightarrow> bool \<times> 'p CollaborativePoseOptimiser" where
  "add_relative_transform_sample_sub P st sceneI sceneJ sample mode =
     (let clusters = (case m_relativeTransformSamples st (sceneI, sceneJ) of
                        None \<Rightarrow> [] | Some cs \<Rightarrow> cs)
      in case add_to_clusters P clusters sample of
           (confident, clusters') \<Rightarrow>
             (confident,
              st \<lparr> m_relativeTransformSamples :=
                     (m_relativeTransformSamples st)((sceneI, sceneJ) \<mapsto> clusters') \<rparr>))"

text \<open>
  Modelled from the spec: the body of \<^verbatim>\<open>add_relative_transform_sample\<close>, which is not
  in the sources: both scenes are registered, the sample is added for (i, j) and its
  inverse for (j, i), and the state is marked as changed. Its result type is the
  declared one: the operation returns no value.
\<close>

definition add_relative_transform_sample ::
  "'p OptimiserParams \<Rightarrow> 'p CollaborativePoseOptimiser \<Rightarrow> string \<Rightarrow> string \<Rightarrow> 'p \<Rightarrow> 'm
     \<Rightarrow> unit \<times> 'p CollaborativePoseOptimiser" where
  "add_relative_transform_sample P st sceneI sceneJ sample mode =
     (let st1 = st \<lparr> m_sceneIDs := insert sceneI (insert sceneJ (m_sceneIDs st)) \<rparr>
      in case add_relative_transform_sample_sub P st1 sceneI sceneJ sample mode of
           (confidentIJ, st2) \<Rightarrow>
             (case add_relative_transform_sample_sub P st2 sceneJ sceneI
                     (inverse_pose P sample) mode of
                (confidentJI, st3) \<Rightarrow>
                  ((), st3 \<lparr> m_relativeTransformSamplesChanged := True \<rparr>)))"

text \<open>Repeated calls of the helper for one scene pair: the flags that they return.\<close>

fun add_samples ::
  "'p OptimiserParams \<Rightarrow> 'p CollaborativePoseOptimiser \<Rightarrow> string \<Rightarrow> string \<Rightarrow> 'p list \<Rightarrow> 'm
     \<Rightarrow> bool list \<times> 'p CollaborativePoseOptimiser" where
  "add_samples P st sceneI sceneJ [] mode = ([], st)"
| "add_samples P st sceneI sceneJ (sample # rest) mode =
     (case add_relative_transform_sample_sub P st sceneI sceneJ sample mode of
        (confident, st') \<Rightarrow>
          (case add_samples P st' sceneI sceneJ rest mode of
             (flags, st'') \<Rightarrow> (confident # flags, st'')))"

text \<open>
  Example inputs: poses on a line (a pose is an integer, its inverse the negation), close
  when they differ by at most 1, a cluster represented by its first sample, and confidence
  at 2 samples; and an optimiser that has seen nothing.
\<close>

definition line_params :: "int OptimiserParams" where
  "line_params =
     \<lparr> confidence_threshold = 2,
       poses_close = (\<lambda>a b. \<bar>a - b\<bar> \<le> 1),
       representative_pose = hd,
       inverse_pose = uminus \<rparr>"

definition fresh_optimiser :: "int CollaborativePoseOptimiser" where
  "fresh_optimiser =
     \<lparr> m_primarySceneID = ''World'',
       m_relativeTransformSamples = Map.empty,
       m_relativeTransformSamplesChanged = False,
       m_sceneIDs = {} \<rparr>"

section \<open>Properties of the image helpers\<close>

lemma row_major_loop_length:
  "length (row_major_loop inputData scaleFunc pixelCount i out) = length out"
  by (induction inputData scaleFunc pixelCount i out rule: row_major_loop.induct)
     (subst row_major_loop.simps, simp)










subsection \<open>The range-normalising functor in binary32\<close>

lemma exponent_eq:
  assumes "pow2 k \<le> \<bar>x\<bar>" and "\<bar>x\<bar> < pow2 (k + 1)" and "- 126 \<le> k"
  shows "exponent x = k"
proof -
  have p: "pow2 j = 2 powr (of_int j)" for j
    by (simp add: pow2_def powr_realpow [symmetric] powr_minus field_simps)
  have "0 < pow2 k" by (simp add: pow2_def)
  with assms(1) have pos: "0 < \<bar>x\<bar>" by linarith
  have "\<lfloor>log 2 \<bar>x\<bar>\<rfloor> = k"
    using assms(1,2) pos by (simp add: floor_log_eq_powr_iff p)
  with assms(3) show ?thesis by (simp add: exponent_def)
qed

lemma round32_255: "round32 255 = Finite 255"
proof -
  have "exponent 255 = 7" by (rule exponent_eq) (simp_all add: pow2_def)
  then show ?thesis by (simp add: round32_def pow2_def round_to_even_def)
qed

lemma round32_7: "round32 7 = Finite 7"
proof -
  have "exponent 7 = 2" by (rule exponent_eq) (simp_all add: pow2_def)
  then show ?thesis by (simp add: round32_def pow2_def round_to_even_def)
qed

lemma round32_factor: "round32 (255 / 7) = Finite (9549531 / 262144)"
proof -
  have "exponent (255 / 7) = 5" by (rule exponent_eq) (simp_all add: pow2_def)
  then show ?thesis by (simp add: round32_def pow2_def round_to_even_def)
qed

lemma round32_product: "round32 (66846717 / 262144) = Finite (16711679 / 65536)"
proof -
  have "exponent (66846717 / 262144) = 7" by (rule exponent_eq) (simp_all add: pow2_def)
  then show ?thesis by (simp add: round32_def pow2_def round_to_even_def)
qed

lemma round32_result: "round32 (16711679 / 65536) = Finite (16711679 / 65536)"
proof -
  have "exponent (16711679 / 65536) = 7" by (rule exponent_eq) (simp_all add: pow2_def)
  then show ?thesis by (simp add: round32_def pow2_def round_to_even_def)
qed

lemma round32_small: "round32 (1 / 2 ^ 125) = Finite (1 / 2 ^ 125)"
proof -
  have "exponent (1 / 2 ^ 125) = - 125" by (rule exponent_eq) (simp_all add: pow2_def)
  then show ?thesis by (simp add: round32_def pow2_def round_to_even_def)
qed

lemma round32_large: "round32 (255 * 2 ^ 125) = PlusInfinity"
proof -
  have "exponent (255 * 2 ^ 125) = 132" by (rule exponent_eq) (simp_all add: pow2_def)
  then show ?thesis by (simp add: round32_def pow2_def round_to_even_def)
qed

lemma float_less_irrefl: "\<not> float_less a a"
  by (cases a) simp_all

lemma float_less_asym: "float_less a b \<Longrightarrow> \<not> float_less b a"
  by (cases a; cases b) simp_all

lemma not_float_less_trans:
  "is_finite a \<Longrightarrow> is_finite b \<Longrightarrow> is_finite c
     \<Longrightarrow> \<not> float_less a b \<Longrightarrow> \<not> float_less b c \<Longrightarrow> \<not> float_less a c"
  by (cases a; cases b; cases c) simp_all

lemma float_less_linear:
  "is_finite a \<Longrightarrow> is_finite b \<Longrightarrow> a \<noteq> b \<Longrightarrow> \<not> float_less b a \<Longrightarrow> float_less a b"
  by (cases a; cases b) simp_all

lemma float_sub_self: "float_sub a a = Finite 0 \<or> float_sub a a = NaN"
  by (cases a) (simp_all add: round32_def)

lemma float_div_not_finite: "d = Finite 0 \<or> d = NaN \<Longrightarrow> \<not> is_finite (float_div a d)"
  by (cases a) (auto split: if_splits)

lemma max_element_loop_bound:
  "largest < n \<Longrightarrow> max_element_loop inputData n i largest < n"
  by (induction inputData n i largest rule: max_element_loop.induct)
     (subst max_element_loop.simps, auto)

lemma min_element_loop_bound:
  "smallest < n \<Longrightarrow> min_element_loop inputData n i smallest < n"
  by (induction inputData n i smallest rule: min_element_loop.induct)
     (subst min_element_loop.simps, auto)

lemma max_element_lt: "0 < n \<Longrightarrow> max_element inputData n < n"
  by (simp add: max_element_def max_element_loop_bound)

lemma min_element_lt: "0 < n \<Longrightarrow> min_element inputData n < n"
  by (simp add: min_element_def min_element_loop_bound)

lemma max_element_loop_ge_start:
  "\<forall>k<n. is_finite (inputData k) \<Longrightarrow> largest < n
     \<Longrightarrow> \<not> float_less (inputData (max_element_loop inputData n i largest))
                       (inputData largest)"
proof (induction inputData n i largest rule: max_element_loop.induct)
  case (1 inputData n i largest)
  show ?case
  proof (cases "i < n")
    case False
    then show ?thesis by (subst max_element_loop.simps) (simp add: float_less_irrefl)
  next
    case True
    let ?l = "if float_less (inputData largest) (inputData i) then i else largest"
    let ?r = "max_element_loop inputData n (i + 1) ?l"
    have unfold: "max_element_loop inputData n i largest = ?r"
      using True by (subst max_element_loop.simps) simp
    have l: "?l < n" using True "1.prems"(2) by simp
    have ih: "\<not> float_less (inputData ?r) (inputData ?l)"
      using "1.IH" [OF True "1.prems"(1) l] .
    have r: "?r < n" using l by (rule max_element_loop_bound)
    have step: "\<not> float_less (inputData ?l) (inputData largest)"
      by (simp add: float_less_irrefl float_less_asym)
    have "\<not> float_less (inputData ?r) (inputData largest)"
      using not_float_less_trans [OF _ _ _ ih step] "1.prems" r l by blast
    then show ?thesis unfolding unfold .
  qed
qed

lemma max_element_loop_ge:
  "\<forall>k<n. is_finite (inputData k) \<Longrightarrow> largest < n \<Longrightarrow> i \<le> j \<Longrightarrow> j < n
     \<Longrightarrow> \<not> float_less (inputData (max_element_loop inputData n i largest)) (inputData j)"
proof (induction inputData n i largest rule: max_element_loop.induct)
  case (1 inputData n i largest)
  from "1.prems" have lt: "i < n" by simp
  let ?l = "if float_less (inputData largest) (inputData i) then i else largest"
  let ?r = "max_element_loop inputData n (i + 1) ?l"
  have unfold: "max_element_loop inputData n i largest = ?r"
    using lt by (subst max_element_loop.simps) simp
  have l: "?l < n" using lt "1.prems"(2) by simp
  have r: "?r < n" using l by (rule max_element_loop_bound)
  show ?case
  proof (cases "j = i")
    case True
    have start: "\<not> float_less (inputData ?r) (inputData ?l)"
      using max_element_loop_ge_start [OF "1.prems"(1) l] .
    have step: "\<not> float_less (inputData ?l) (inputData i)"
      by (simp add: float_less_irrefl)
    have "\<not> float_less (inputData ?r) (inputData i)"
      using not_float_less_trans [OF _ _ _ start step] "1.prems" r l lt by blast
    then show ?thesis unfolding unfold True .
  next
    case False
    with "1.prems" have "i + 1 \<le> j" by simp
    from "1.IH" [OF lt "1.prems"(1) l this "1.prems"(4)]
    show ?thesis unfolding unfold .
  qed
qed

lemma max_element_ge:
  assumes "\<forall>k<n. is_finite (inputData k)" and "j < n"
  shows "\<not> float_less (inputData (max_element inputData n)) (inputData j)"
proof (cases "j = 0")
  case True
  with assms max_element_loop_ge_start [OF assms(1), of 0 1] show ?thesis
    by (simp add: max_element_def)
next
  case False
  then have "1 \<le> j" by simp
  from max_element_loop_ge [OF assms(1) _ this assms(2), of 0] assms(2) show ?thesis
    by (simp add: max_element_def)
qed

lemma min_element_loop_le_start:
  "\<forall>k<n. is_finite (inputData k) \<Longrightarrow> smallest < n
     \<Longrightarrow> \<not> float_less (inputData smallest)
                       (inputData (min_element_loop inputData n i smallest))"
proof (induction inputData n i smallest rule: min_element_loop.induct)
  case (1 inputData n i smallest)
  show ?case
  proof (cases "i < n")
    case False
    then show ?thesis by (subst min_element_loop.simps) (simp add: float_less_irrefl)
  next
    case True
    let ?s = "if float_less (inputData i) (inputData smallest) then i else smallest"
    let ?r = "min_element_loop inputData n (i + 1) ?s"
    have unfold: "min_element_loop inputData n i smallest = ?r"
      using True by (subst min_element_loop.simps) simp
    have s: "?s < n" using True "1.prems"(2) by simp
    have ih: "\<not> float_less (inputData ?s) (inputData ?r)"
      using "1.IH" [OF True "1.prems"(1) s] .
    have r: "?r < n" using s by (rule min_element_loop_bound)
    have step: "\<not> float_less (inputData smallest) (inputData ?s)"
      by (simp add: float_less_irrefl float_less_asym)
    have "\<not> float_less (inputData smallest) (inputData ?r)"
      using not_float_less_trans [OF _ _ _ step ih] "1.prems" r s by blast
    then show ?thesis unfolding unfold .
  qed
qed

lemma min_element_loop_le:
  "\<forall>k<n. is_finite (inputData k) \<Longrightarrow> smallest < n \<Longrightarrow> i \<le> j \<Longrightarrow> j < n
     \<Longrightarrow> \<not> float_less (inputData j) (inputData (min_element_loop inputData n i smallest))"
proof (induction inputData n i smallest rule: min_element_loop.induct)
  case (1 inputData n i smallest)
  from "1.prems" have lt: "i < n" by simp
  let ?s = "if float_less (inputData i) (inputData smallest) then i else smallest"
  let ?r = "min_element_loop inputData n (i + 1) ?s"
  have unfold: "min_element_loop inputData n i smallest = ?r"
    using lt by (subst min_element_loop.simps) simp
  have s: "?s < n" using lt "1.prems"(2) by simp
  have r: "?r < n" using s by (rule min_element_loop_bound)
  show ?case
  proof (cases "j = i")
    case True
    have start: "\<not> float_less (inputData ?s) (inputData ?r)"
      using min_element_loop_le_start [OF "1.prems"(1) s] .
    have step: "\<not> float_less (inputData i) (inputData ?s)"
      by (simp add: float_less_irrefl)
    have "\<not> float_less (inputData i) (inputData ?r)"
      using not_float_less_trans [OF _ _ _ step start] "1.prems" r s lt by blast
    then show ?thesis unfolding unfold True .
  next
    case False
    with "1.prems" have "i + 1 \<le> j" by simp
    from "1.IH" [OF lt "1.prems"(1) s this "1.prems"(4)]
    show ?thesis unfolding unfold .
  qed
qed

lemma min_element_le:
  assumes "\<forall>k<n. is_finite (inputData k)" and "j < n"
  shows "\<not> float_less (inputData j) (inputData (min_element inputData n))"
proof (cases "j = 0")
  case True
  with assms min_element_loop_le_start [OF assms(1), of 0 1] show ?thesis
    by (simp add: min_element_def)
next
  case False
  then have "1 \<le> j" by simp
  from min_element_loop_le [OF assms(1) _ this assms(2), of 0] assms(2) show ?thesis
    by (simp add: min_element_def)
qed

lemma ScaleDataToRange_ctor_fields:
  "m_minInputValue (ScaleDataToRange_ctor inputData n lo hi)
     = inputData (min_element inputData n)"
  "m_minOutputValue (ScaleDataToRange_ctor inputData n lo hi) = lo"
  "m_scalingFactor (ScaleDataToRange_ctor inputData n lo hi)
     = float_div (float_sub hi lo)
         (float_sub (inputData (max_element inputData n)) (inputData (min_element inputData n)))"
  by (simp_all add: ScaleDataToRange_ctor_def Let_def)

lemma finite_factor_distinct:
  assumes "is_finite (m_scalingFactor (ScaleDataToRange_ctor inputData n lo hi))"
  shows "inputData (max_element inputData n) \<noteq> inputData (min_element inputData n)"
proof
  assume eq: "inputData (max_element inputData n) = inputData (min_element inputData n)"
  have "\<not> is_finite (float_div (float_sub hi lo)
      (float_sub (inputData (min_element inputData n)) (inputData (min_element inputData n))))"
    by (rule float_div_not_finite) (rule float_sub_self)
  with assms show False by (simp add: ScaleDataToRange_ctor_fields eq)
qed

lemma minimum_maps_to_minOutputValue:
  assumes "is_float lo"
    and "is_finite (m_minInputValue s)" and "is_finite (m_scalingFactor s)"
    and "m_minOutputValue s = lo"
  shows "ScaleDataToRange_apply s (m_minInputValue s) = lo"
proof -
  from assms(2) obtain mn where mn: "m_minInputValue s = Finite mn"
    by (cases "m_minInputValue s") simp_all
  from assms(3) obtain f where f: "m_scalingFactor s = Finite f"
    by (cases "m_scalingFactor s") simp_all
  have zero: "round32 0 = Finite 0" by (simp add: round32_def)
  show ?thesis
    using assms(1) by (cases lo) (simp_all add: ScaleDataToRange_apply_def mn f assms(4) zero)
qed

lemma all_less_2: "(\<forall>i<2::nat. P i) \<longleftrightarrow> P 0 \<and> P 1"
  by (auto simp: less_Suc_eq numeral_2_eq_2)

lemma pair_extrema:
  "max_element ((!) [a, b]) 2 = (if float_less a b then 1 else 0)"
  "min_element ((!) [a, b]) 2 = (if float_less b a then 1 else 0)"
  by (simp_all add: max_element_def min_element_def max_element_loop.simps
      min_element_loop.simps)

lemma pair_factor:
  "m_scalingFactor (ScaleDataToRange_ctor ((!) [Finite 0, Finite 7]) 2 (Finite 0) (Finite 255))
     = Finite (9549531 / 262144)"
  by (simp add: ScaleDataToRange_ctor_fields pair_extrema round32_255 round32_7 round32_factor)

lemma pair_maximum:
  "ScaleDataToRange_apply
     (ScaleDataToRange_ctor ((!) [Finite 0, Finite 7]) 2 (Finite 0) (Finite 255)) (Finite 7)
     = Finite (16711679 / 65536)"
  by (simp add: ScaleDataToRange_apply_def ScaleDataToRange_ctor_fields pair_extrema
      round32_255 round32_7 round32_factor round32_product round32_result)

lemma close_factor:
  "m_scalingFactor
     (ScaleDataToRange_ctor ((!) [Finite 0, Finite (1 / 2 ^ 125)]) 2 (Finite 0) (Finite 255))
     = PlusInfinity"
  using round32_small round32_large
  by (simp add: ScaleDataToRange_ctor_fields pair_extrema round32_255)

lemma close_minimum:
  "ScaleDataToRange_apply
     (ScaleDataToRange_ctor ((!) [Finite 0, Finite (1 / 2 ^ 125)]) 2 (Finite 0) (Finite 255))
     (Finite 0) = NaN"
  using close_factor
  by (simp add: ScaleDataToRange_apply_def ScaleDataToRange_ctor_fields(1,2) pair_extrema
      round32_def)

lemma equal_factor:
  "m_scalingFactor (ScaleDataToRange_ctor ((!) [Finite 5, Finite 5]) 2 (Finite 0) (Finite 255))
     = PlusInfinity"
  by (simp add: ScaleDataToRange_ctor_fields pair_extrema round32_255) (simp add: round32_def)

text \<open>
  C10 as the specification states it fails. The buffer \<open>[0, 7]\<close> is not empty and has two
  distinct values, and with the output range \<open>[0, 255]\<close> the functor maps its maximum to
  \<open>16711679 / 65536 = 254.99998...\<close>, not to 255: the scaling factor is the rounded
  quotient \<open>255 / 7\<close>, and the pixel of the maximum is 254. The buffer \<open>[0, 2^-125]\<close>
  has two distinct values as well, and its scaling factor \<open>255 * 2^125\<close> overflows to an
  infinity, with which the minimum maps to NaN.
\<close>

theorem ScaleDataToRange_rounds:
  "is_float (Finite 0) \<and> is_float (Finite 7) \<and> is_float (Finite 255)
   \<and> Finite 0 \<noteq> Finite 7
   \<and> m_scalingFactor
        (ScaleDataToRange_ctor ((!) [Finite 0, Finite 7]) 2 (Finite 0) (Finite 255))
      = Finite (9549531 / 262144)
   \<and> ScaleDataToRange_apply
        (ScaleDataToRange_ctor ((!) [Finite 0, Finite 7]) 2 (Finite 0) (Finite 255)) (Finite 7)
      = Finite (16711679 / 65536)
   \<and> Finite (16711679 / 65536) \<noteq> Finite 255
   \<and> unat (clamp_pixel_value (16711679 / 65536)) = 254
   \<and> is_float (Finite (1 / 2 ^ 125))
   \<and> Finite 0 \<noteq> Finite (1 / 2 ^ 125)
   \<and> m_scalingFactor
        (ScaleDataToRange_ctor ((!) [Finite 0, Finite (1 / 2 ^ 125)]) 2 (Finite 0) (Finite 255))
      = PlusInfinity
   \<and> ScaleDataToRange_apply
        (ScaleDataToRange_ctor ((!) [Finite 0, Finite (1 / 2 ^ 125)]) 2 (Finite 0) (Finite 255))
        (Finite 0) = NaN"
proof -
  have a: "is_float (Finite 0)" by (simp add: round32_def)
  have b: "is_float (Finite 7)" by (simp add: round32_7)
  have c: "is_float (Finite 255)" by (simp add: round32_255)
  have d: "Finite 0 \<noteq> Finite 7" by simp
  have e: "Finite (16711679 / 65536) \<noteq> Finite 255" by simp
  have f: "unat (clamp_pixel_value (16711679 / 65536)) = 254"
    by (simp add: clamp_pixel_value_def)
  have g: "is_float (Finite (1 / 2 ^ 125))" using round32_small by simp
  have h: "Finite 0 \<noteq> Finite (1 / 2 ^ 125)" by simp
  from a b c d pair_factor pair_maximum e f g h close_factor close_minimum
  show ?thesis by blast
qed

text \<open>
  C10, amended. A non-empty buffer with two distinct values is necessary for the functor
  to be well defined, and it is not sufficient. On an empty buffer both algorithms return
  the end position, so the constructor reads outside the buffer; on a non-empty buffer
  they return positions inside it. When every value of a non-empty buffer is the same,
  the scaling factor is not finite (the divisor \<open>max - min\<close> is zero or NaN). When the
  scaling factor is finite, the buffer has two distinct values; if moreover its values
  are finite, the minimum is less than the maximum and they bound every value. The
  minimum maps to \<open>minOutputValue\<close> exactly whenever the minimum and the scaling factor
  are finite. Nothing is stated for the maximum, which maps to \<open>maxOutputValue\<close> only
  up to rounding.
\<close>

theorem ScaleDataToRange_well_defined:
  "max_element inputData 0 = 0 \<and> min_element inputData 0 = 0
   \<and> (0 < n \<longrightarrow> max_element inputData n < n \<and> min_element inputData n < n)
   \<and> m_minInputValue (ScaleDataToRange_ctor inputData n minOutputValue maxOutputValue)
        = inputData (min_element inputData n)
   \<and> (0 < n \<and> (\<forall>i<n. inputData i = inputData 0)
        \<longrightarrow> \<not> is_finite (m_scalingFactor
                (ScaleDataToRange_ctor inputData n minOutputValue maxOutputValue)))
   \<and> (0 < n \<and> is_finite (m_scalingFactor
                (ScaleDataToRange_ctor inputData n minOutputValue maxOutputValue))
        \<longrightarrow> (\<exists>i<n. \<exists>j<n. inputData i \<noteq> inputData j))
   \<and> (0 < n \<and> (\<forall>i<n. is_finite (inputData i))
        \<and> is_finite (m_scalingFactor
                (ScaleDataToRange_ctor inputData n minOutputValue maxOutputValue))
        \<longrightarrow> float_less (inputData (min_element inputData n))
                         (inputData (max_element inputData n))
            \<and> (\<forall>j<n. \<not> float_less (inputData j) (inputData (min_element inputData n))
                      \<and> \<not> float_less (inputData (max_element inputData n)) (inputData j)))
   \<and> (is_float minOutputValue \<and> is_finite (inputData (min_element inputData n))
        \<and> is_finite (m_scalingFactor
                (ScaleDataToRange_ctor inputData n minOutputValue maxOutputValue))
        \<longrightarrow> ScaleDataToRange_apply
              (ScaleDataToRange_ctor inputData n minOutputValue maxOutputValue)
              (inputData (min_element inputData n)) = minOutputValue)"
proof -
  let ?s = "ScaleDataToRange_ctor inputData n minOutputValue maxOutputValue"
  let ?mx = "inputData (max_element inputData n)"
  let ?mn = "inputData (min_element inputData n)"
  have a: "max_element inputData 0 = 0 \<and> min_element inputData 0 = 0"
    by (simp add: max_element_def min_element_def)
  have b: "0 < n \<longrightarrow> max_element inputData n < n \<and> min_element inputData n < n"
    by (simp add: max_element_lt min_element_lt)
  have c: "m_minInputValue ?s = ?mn"
    by (rule ScaleDataToRange_ctor_fields)
  have d: "0 < n \<and> (\<forall>i<n. inputData i = inputData 0)
        \<longrightarrow> \<not> is_finite (m_scalingFactor ?s)"
  proof
    assume h: "0 < n \<and> (\<forall>i<n. inputData i = inputData 0)"
    then have "?mx = inputData 0" "?mn = inputData 0"
      using max_element_lt [of n inputData] min_element_lt [of n inputData] by blast+
    then have "?mx = ?mn" by simp
    then show "\<not> is_finite (m_scalingFactor ?s)"
      using finite_factor_distinct [of inputData n minOutputValue maxOutputValue] by blast
  qed
  have e: "0 < n \<and> is_finite (m_scalingFactor ?s)
        \<longrightarrow> (\<exists>i<n. \<exists>j<n. inputData i \<noteq> inputData j)"
  proof
    assume h: "0 < n \<and> is_finite (m_scalingFactor ?s)"
    then have "?mx \<noteq> ?mn" using finite_factor_distinct by blast
    moreover have "max_element inputData n < n" "min_element inputData n < n"
      using h by (simp_all add: max_element_lt min_element_lt)
    ultimately show "\<exists>i<n. \<exists>j<n. inputData i \<noteq> inputData j" by blast
  qed
  have f: "0 < n \<and> (\<forall>i<n. is_finite (inputData i)) \<and> is_finite (m_scalingFactor ?s)
        \<longrightarrow> float_less ?mn ?mx
            \<and> (\<forall>j<n. \<not> float_less (inputData j) ?mn \<and> \<not> float_less ?mx (inputData j))"
  proof
    assume h: "0 < n \<and> (\<forall>i<n. is_finite (inputData i)) \<and> is_finite (m_scalingFactor ?s)"
    then have fin: "\<forall>i<n. is_finite (inputData i)" by blast
    have ix: "max_element inputData n < n" "min_element inputData n < n"
      using h by (simp_all add: max_element_lt min_element_lt)
    have ne: "?mn \<noteq> ?mx" using h finite_factor_distinct by metis
    have "\<not> float_less ?mx ?mn" using max_element_ge [OF fin ix(2)] .
    then have less: "float_less ?mn ?mx"
      using float_less_linear [OF _ _ ne] fin ix by blast
    have "\<forall>j<n. \<not> float_less (inputData j) ?mn \<and> \<not> float_less ?mx (inputData j)"
      using max_element_ge [OF fin] min_element_le [OF fin] by blast
    with less show "float_less ?mn ?mx
        \<and> (\<forall>j<n. \<not> float_less (inputData j) ?mn \<and> \<not> float_less ?mx (inputData j))"
      by (rule conjI)
  qed
  have g: "is_float minOutputValue \<and> is_finite ?mn \<and> is_finite (m_scalingFactor ?s)
        \<longrightarrow> ScaleDataToRange_apply ?s ?mn = minOutputValue"
  proof
    assume h: "is_float minOutputValue \<and> is_finite ?mn \<and> is_finite (m_scalingFactor ?s)"
    have "ScaleDataToRange_apply ?s (m_minInputValue ?s) = minOutputValue"
      using h by (intro minimum_maps_to_minOutputValue)
                 (simp_all add: ScaleDataToRange_ctor_fields(1,2))
    then show "ScaleDataToRange_apply ?s ?mn = minOutputValue"
      by (simp only: c)
  qed
  show ?thesis
    by (rule conjI [OF a [THEN conjunct1] conjI [OF a [THEN conjunct2] conjI [OF b
          conjI [OF c conjI [OF d conjI [OF e conjI [OF f g]]]]]]])
qed

theorem ScaleDataToRange_well_defined_witness:
  "max_element ((!) [Finite 0, Finite 7]) 2 = 1
   \<and> min_element ((!) [Finite 0, Finite 7]) 2 = 0
   \<and> is_float (Finite 0)
   \<and> m_scalingFactor
        (ScaleDataToRange_ctor ((!) [Finite 0, Finite 7]) 2 (Finite 0) (Finite 255))
      = Finite (9549531 / 262144)
   \<and> float_less (Finite 0) (Finite 7)
   \<and> ScaleDataToRange_apply
        (ScaleDataToRange_ctor ((!) [Finite 0, Finite 7]) 2 (Finite 0) (Finite 255)) (Finite 0)
      = Finite 0
   \<and> m_scalingFactor
        (ScaleDataToRange_ctor ((!) [Finite 5, Finite 5]) 2 (Finite 0) (Finite 255))
      = PlusInfinity
   \<and> \<not> is_finite (m_scalingFactor
        (ScaleDataToRange_ctor ((!) [Finite 5, Finite 5]) 2 (Finite 0) (Finite 255)))"
proof -
  note distinct = ScaleDataToRange_well_defined [of "(!) [Finite 0, Finite 7]" 2
      "Finite 0" "Finite 255"]
  note equal = ScaleDataToRange_well_defined [of "(!) [Finite 5, Finite 5]" 2
      "Finite 0" "Finite 255"]
  have mx: "max_element ((!) [Finite 0, Finite 7]) 2 = 1"
    and mn: "min_element ((!) [Finite 0, Finite 7]) 2 = 0"
    by (simp_all add: pair_extrema)
  have fl: "is_float (Finite 0)" by (simp add: round32_def)
  have fin: "is_finite (m_scalingFactor
      (ScaleDataToRange_ctor ((!) [Finite 0, Finite 7]) 2 (Finite 0) (Finite 255)))"
    by (simp add: pair_factor)
  have inputs: "\<forall>i<2::nat. is_finite ([Finite 0, Finite 7] ! i)"
    by (simp add: all_less_2)
  have less: "float_less (Finite 0) (Finite 7)"
    using distinct [THEN conjunct2, THEN conjunct2, THEN conjunct2, THEN conjunct2,
        THEN conjunct2, THEN conjunct2, THEN conjunct1] fin inputs
    by (simp add: mx mn)
  have lo: "ScaleDataToRange_apply
        (ScaleDataToRange_ctor ((!) [Finite 0, Finite 7]) 2 (Finite 0) (Finite 255)) (Finite 0)
      = Finite 0"
    using distinct [THEN conjunct2, THEN conjunct2, THEN conjunct2, THEN conjunct2,
        THEN conjunct2, THEN conjunct2, THEN conjunct2] fin fl
    by (simp add: mn)
  have same: "\<forall>i<2::nat. [Finite 5, Finite 5] ! i = [Finite 5, Finite 5 :: binary32] ! 0"
    by (simp add: all_less_2)
  have inf: "\<not> is_finite (m_scalingFactor
        (ScaleDataToRange_ctor ((!) [Finite 5, Finite 5]) 2 (Finite 0) (Finite 255)))"
    using equal [THEN conjunct2, THEN conjunct2, THEN conjunct2, THEN conjunct2,
        THEN conjunct1] same
    by simp
  from mx mn fl pair_factor less lo equal_factor inf show ?thesis by blast
qed

section \<open>Properties of the relocaliser\<close>

subsection \<open>The colour test of the first point\<close>

lemma consistentColour_mod:
  "consistentColour f m \<longleftrightarrow>
     (case toUChar (toVector3 (colour f)) of (cx, cy, cz) \<Rightarrow>
      case mode_colour m of (mx, my, mz) \<Rightarrow>
        (uint cx - uint mx) mod 256 \<le> 30 \<and> (uint cy - uint my) mod 256 \<le> 30
        \<and> (uint cz - uint mz) mod 256 \<le> 30)"
  by (auto simp: consistentColour_def uint_word_ariths split: prod.splits)

text \<open>
  C4. A sampled pair with a valid feature and at least one mode should be accepted as the
  first point exactly when every channel of the pixel colour is within 30 of the colour
  of the mode. The code takes the difference in unsigned bytes, so it does not: on a
  one-pixel image with pixel colour 5 and mode colour 10 in every channel (5 apart) the
  pair is rejected, and with pixel colour 0 and mode colour 240 (240 apart) it is
  accepted as the first point.
\<close>

theorem first_point_colour_check_wraps:
  "select_point constructed (one_pixel_image 5 10) [] (sconst 0) = ([], sconst 0)
   \<and> select_point constructed (one_pixel_image 0 240) [] (sconst 0) = ([(0, 0, 0)], sconst 0)"
  by (simp add: select_point_def one_pixel_image_def constructed_def
      uniform_int_distribution_def consistentColour_def toUChar_component_def toIntRound_def)

subsection \<open>The example inputs\<close>

lemma constructed_fields:
  "m_kInitRansac constructed = 1024"
  "m_nbPointsForKabschBoostrap constructed = 3"
  "m_useAllModesPerLeafInPoseHypothesisGeneration constructed"
  "m_checkMinDistanceBetweenSampledModes constructed"
  "m_minDistanceBetweenSampledModes constructed = 3 / 10"
  "\<not> m_checkRigidTransformationConstraint constructed"
  "m_translationErrorMaxForCorrectPose constructed = 5 / 100"
  "m_batchSizeRansac constructed = 500"
  "m_trimKinitAfterFirstEnergyComputation constructed = 64"
  "\<not> m_poseUpdate constructed"
  by (simp_all add: constructed_def)

lemma row_image_fields:
  "noDims_width row_image = 4" "noDims_height row_image = 1"
  "patchFeaturesData row_image i = (if i = 0
          then \<lparr> position = (0, 0, 0, - 1), colour = (0, 0, 0, 255) \<rparr>
          else \<lparr> position = (real i - 1, 0, 0, 1), colour = (0, 0, 0, 255) \<rparr>)"
  "predictionsData row_image i = \<lparr> modes = (\<lambda>k. \<lparr> mode_position = (real i - 1, 0, 0),
                                     mode_colour = (0, 0, 0), nbInliers = 1 \<rparr>),
                                   nbModes = (if i = 0 then 0 else 1) \<rparr>"
  by (simp_all add: row_image_def)

lemma select_point_row1: "select_point constructed row_image [] row_engine = ([(Suc 0,0,0)], 2 ## 0 ## 0 ## 3 ## 0 ## 0 ## sconst 0)"
  by (simp add: select_point_def row_image_fields row_engine_def constructed_fields
      uniform_int_distribution_def consistentColour_def toUChar_component_def toIntRound_def)

lemma select_point_row2: "select_point constructed row_image [(Suc 0,0,0)] (2 ## 0 ## 0 ## 3 ## 0 ## 0 ## sconst 0) = ([(Suc 0,0,0),(2,0,0)], 3 ## 0 ## 0 ## sconst 0)"
  by (simp add: select_point_def row_image_fields constructed_fields
      uniform_int_distribution_def mode_world_position_def)

lemma select_point_row3: "select_point constructed row_image [(Suc 0,0,0),(2,0,0)] (3 ## 0 ## 0 ## sconst 0) = ([(Suc 0,0,0),(2,0,0),(3,0,0)], sconst 0)"
  by (simp add: select_point_def row_image_fields constructed_fields
      uniform_int_distribution_def mode_world_position_def)

lemma select_points_row: "select_points constructed row_image 0 [] row_engine = ([(Suc 0,0,0),(2,0,0),(3,0,0)], sconst 0)"
  by (simp add: select_points.simps select_point_row1 select_point_row2 select_point_row3
      maxIterationsInner_def constructed_fields)


subsection \<open>The selection of the bootstrap points\<close>

lemma length_v_vsub_commute: "length_v (vsub a b) = length_v (vsub b a)"
proof -
  obtain ax ay az bx "by" bz where "a = (ax, ay, az)" "b = (bx, by, bz)"
    by (metis prod_cases3)
  moreover have "(ax - bx) * (ax - bx) = (bx - ax) * (bx - ax)"
    "(ay - by) * (ay - by) = (by - ay) * (by - ay)"
    "(az - bz) * (az - bz) = (bz - az) * (bz - az)"
    by (simp_all add: algebra_simps)
  ultimately show ?thesis by simp
qed

lemma farEnough_iff:
  "farEnough cfg img selected worldPt \<longleftrightarrow>
     (\<forall>other \<in> set selected.
        \<not> length_v (vsub (mode_world_position img other) worldPt)
            < m_minDistanceBetweenSampledModes cfg)"
  by (induction selected) (auto simp: Let_def)

text \<open>
  A pass through the body of the inner loop either leaves the selection alone or appends
  a pixel and a mode that have passed the tests.
\<close>

lemma select_point_result:
  assumes "select_point cfg img selected eng = (selected', eng')"
  shows "selected' = selected
     \<or> (\<exists>x y k. selected' = selected @ [(x, y, k)]
          \<and> 0 \<le> w4 (position (patchFeaturesData img (y * noDims_width img + x)))
          \<and> 0 < nbModes (predictionsData img (y * noDims_width img + x))
          \<and> (selected = [] \<longrightarrow>
                consistentColour (patchFeaturesData img (y * noDims_width img + x))
                  (modes (predictionsData img (y * noDims_width img + x)) k))
          \<and> (m_checkMinDistanceBetweenSampledModes cfg \<longrightarrow>
                farEnough cfg img selected (mode_world_position img (x, y, k))))"
  using assms
  unfolding select_point_def Let_def mode_world_position_def
  by (auto split: prod.splits if_splits)

lemma select_points_invariant:
  assumes "P selected"
    and "\<And>s e s' e'. P s \<Longrightarrow> select_point cfg img s e = (s', e') \<Longrightarrow> P s'"
  shows "P (fst (select_points cfg img iterationsInner selected eng))"
  using assms
proof (induction cfg img iterationsInner selected eng rule: select_points.induct)
  case (1 cfg img iterationsInner selected eng)
  show ?case
  proof (cases "length selected \<noteq> m_nbPointsForKabschBoostrap cfg
      \<and> iterationsInner < maxIterationsInner")
    case True
    obtain s' e' where step: "select_point cfg img selected eng = (s', e')"
      by (cases "select_point cfg img selected eng")
    have "P s'" using "1.prems"(2) [OF "1.prems"(1) step] .
    from "1.IH" [OF True step [symmetric] this "1.prems"(2)] show ?thesis
      using True step by (subst select_points.simps) simp
  next
    case False
    then show ?thesis using "1.prems"(1) by (subst select_points.simps) auto
  qed
qed

text \<open>
  The outer loop never starts a second attempt: it returns false when the first attempt
  has not assembled its points, and otherwise leaves the loop with the candidate.
\<close>

lemma hypothesize_pose_single_attempt:
  "hypothesize_pose Kabsch cfg img res eng =
     (case select_points cfg img 0 [] eng of
        (selected, eng') \<Rightarrow>
          if length selected \<noteq> m_nbPointsForKabschBoostrap cfg then (False, res, eng')
          else (True, make_candidate Kabsch img selected, eng'))"
proof -
  obtain selected eng' where sel: "select_points cfg img 0 [] eng = (selected, eng')"
    by (cases "select_points cfg img 0 [] eng")
  have second: "hypothesize_pose_loop Kabsch cfg img True (Suc 0) c eng'
      = (True, c, eng')" for c
    by (subst hypothesize_pose_loop.simps) (simp add: maxIterationsOuter_def)
  show ?thesis
    unfolding hypothesize_pose_def
    by (subst hypothesize_pose_loop.simps) (simp add: sel second maxIterationsOuter_def)
qed

lemma hypothesize_pose_True:
  assumes "hypothesize_pose Kabsch cfg img res eng = (True, candidate, eng')"
  shows "candidate = make_candidate Kabsch img (fst (select_points cfg img 0 [] eng))
     \<and> length (fst (select_points cfg img 0 [] eng)) = m_nbPointsForKabschBoostrap cfg"
  using assms unfolding hypothesize_pose_single_attempt
  by (auto split: prod.splits if_splits)

subsection \<open>The minimum distance between the sampled modes\<close>

lemma far_apart_step:
  assumes check: "m_checkMinDistanceBetweenSampledModes cfg"
    and inv: "far_apart cfg img s"
    and step: "select_point cfg img s e = (s', e')"
  shows "far_apart cfg img s'"
proof -
  from select_point_result [OF step] consider "s' = s"
    | x y k where "s' = s @ [(x, y, k)]"
        "farEnough cfg img s (mode_world_position img (x, y, k))"
    using check by blast
  then show ?thesis
  proof cases
    case 1
    then show ?thesis using inv by simp
  next
    case 2
    have new: "\<forall>i < length s.
        \<not> length_v (vsub (mode_world_position img (s ! i)) (mode_world_position img (x, y, k)))
            < m_minDistanceBetweenSampledModes cfg"
      using 2(2) by (simp add: farEnough_iff)
    show ?thesis
      unfolding far_apart_def
    proof (intro allI impI)
      fix j i assume j: "j < length s'" and i: "i < j"
      show "\<not> length_v (vsub (mode_world_position img (s' ! i))
                         (mode_world_position img (s' ! j)))
            < m_minDistanceBetweenSampledModes cfg"
      proof (cases "j < length s")
        case True
        then show ?thesis
          using inv i by (simp add: far_apart_def 2(1) nth_append)
      next
        case False
        with j have "j = length s" by (simp add: 2(1))
        then show ?thesis
          using new i by (simp add: 2(1) nth_append)
      qed
    qed
  qed
qed

lemma inlier_world_position_make_candidate:
  "i < length selected \<Longrightarrow>
   inlier_world_position img (inliers (make_candidate Kabsch img selected) ! i)
     = mode_world_position img (selected ! i)"
  by (cases "selected ! i")
     (simp add: make_candidate_def inlier_world_position_def mode_world_position_def)


lemma far_apart_selected:
  assumes "m_checkMinDistanceBetweenSampledModes cfg"
  shows "far_apart cfg img (fst (select_points cfg img iterationsInner [] eng))"
proof (rule select_points_invariant)
  show "far_apart cfg img []" by (simp add: far_apart_def)
next
  fix s e s' e'
  assume "far_apart cfg img s" "select_point cfg img s e = (s', e')"
  then show "far_apart cfg img s'" by (rule far_apart_step [OF assms])
qed

text \<open>
  C7. With the check of the minimum distance between sampled modes enabled, for every
  image state and every random engine, no hypothesis returned by \<open>hypothesize_pose\<close>
  has two chosen points whose mode world positions are closer to each other than the
  minimum distance (0.3 m as constructed).
\<close>

theorem hypothesis_points_far_apart:
  assumes "m_checkMinDistanceBetweenSampledModes cfg"
    and "hypothesize_pose Kabsch cfg img res eng = (True, candidate, eng')"
    and "i < length (inliers candidate)" and "j < length (inliers candidate)" and "i \<noteq> j"
  shows "m_minDistanceBetweenSampledModes cfg
     \<le> length_v (vsub (inlier_world_position img (inliers candidate ! i))
                       (inlier_world_position img (inliers candidate ! j)))"
proof -
  define selected where "selected = fst (select_points cfg img 0 [] eng)"
  have cand: "candidate = make_candidate Kabsch img selected"
    using hypothesize_pose_True [OF assms(2)] by (simp add: selected_def)
  have len: "length (inliers candidate) = length selected"
    by (simp add: cand make_candidate_def)
  have far: "far_apart cfg img selected"
    unfolding selected_def by (rule far_apart_selected [OF assms(1)])
  have pos: "inlier_world_position img (inliers candidate ! n)
      = mode_world_position img (selected ! n)" if "n < length selected" for n
    unfolding cand by (rule inlier_world_position_make_candidate [OF that])
  have ordered: "m_minDistanceBetweenSampledModes cfg
     \<le> length_v (vsub (mode_world_position img (selected ! a))
                       (mode_world_position img (selected ! b)))"
    if "a < b" "b < length selected" for a b
    using far that by (simp add: far_apart_def not_less)
  from assms(5) consider "i < j" | "j < i" by linarith
  then show ?thesis
  proof cases
    case 1
    with ordered [of i j] assms(3,4) show ?thesis by (simp add: pos len)
  next
    case 2
    with ordered [of j i] assms(3,4) show ?thesis
      by (simp add: pos len length_v_vsub_commute)
  qed
qed

theorem hypothesis_points_far_apart_witness:
  "m_checkMinDistanceBetweenSampledModes constructed
   \<and> (\<exists>candidate eng'.
         hypothesize_pose identity_Kabsch constructed row_image blank_candidate row_engine
           = (True, candidate, eng')
       \<and> inliers candidate = [(1, 0), (2, 0), (3, 0)])
   \<and> 3 / 10 \<le> length_v (vsub (inlier_world_position row_image (1, 0))
                               (inlier_world_position row_image (3, 0)))"
proof -
  let ?c = "make_candidate identity_Kabsch row_image [(Suc 0, 0, 0), (2, 0, 0), (3, 0, 0)]"
  have check: "m_checkMinDistanceBetweenSampledModes constructed"
    by (rule constructed_fields)
  have run: "hypothesize_pose identity_Kabsch constructed row_image blank_candidate row_engine
      = (True, ?c, sconst 0)"
    by (simp add: hypothesize_pose_single_attempt select_points_row constructed_fields)
  have inl: "inliers ?c = [(1, 0), (2, 0), (3, 0)]"
    by (simp add: make_candidate_def row_image_fields)
  have "m_minDistanceBetweenSampledModes constructed
     \<le> length_v (vsub (inlier_world_position row_image (inliers ?c ! 0))
                       (inlier_world_position row_image (inliers ?c ! 2)))"
    by (rule hypothesis_points_far_apart [OF check run]) (simp_all add: inl)
  then have "3 / 10 \<le> length_v (vsub (inlier_world_position row_image (1, 0))
                               (inlier_world_position row_image (3, 0)))"
    by (simp add: inl constructed_fields)
  with check run inl show ?thesis by blast
qed

subsection \<open>Inliers come from valid pixels\<close>

lemma selected_valid:
  "\<forall>(x, y, k) \<in> set (fst (select_points cfg img iterationsInner [] eng)).
     valid_inlier_source img (y * noDims_width img + x)"
proof (rule select_points_invariant)
  show "\<forall>(x, y, k) \<in> set []. valid_inlier_source img (y * noDims_width img + x)" by simp
next
  fix s e s' e'
  assume inv: "\<forall>(x, y, k) \<in> set s. valid_inlier_source img (y * noDims_width img + x)"
    and step: "select_point cfg img s e = (s', e')"
  from select_point_result [OF step] inv
  show "\<forall>(x, y, k) \<in> set s'. valid_inlier_source img (y * noDims_width img + x)"
    by (auto simp: valid_inlier_source_def)
qed

lemma make_candidate_inliers_valid:
  assumes "\<forall>(x, y, k) \<in> set selected. valid_inlier_source img (y * noDims_width img + x)"
  shows "inliers_valid img (make_candidate Kabsch img selected)"
  using assms by (auto simp: inliers_valid_def make_candidate_def)

lemma hypothesize_pose_inliers_valid:
  assumes "hypothesize_pose Kabsch cfg img res eng = (True, candidate, eng')"
  shows "inliers_valid img candidate"
  using hypothesize_pose_True [OF assms] selected_valid
  by (simp add: make_candidate_inliers_valid)

lemma generate_pose_candidate_inliers_valid:
  assumes "generate_pose_candidate Kabsch cfg img i candidate0 eng = (Some candidate, eng')"
  shows "inliers_valid img candidate"
proof -
  obtain found c e where h: "hypothesize_pose Kabsch cfg img candidate0 eng = (found, c, e)"
    by (cases "hypothesize_pose Kabsch cfg img candidate0 eng")
  with assms have "found" and cand: "candidate = c \<lparr> cameraId := int i \<rparr>"
    by (auto simp: generate_pose_candidate_def split: if_splits)
  with h have "hypothesize_pose Kabsch cfg img candidate0 eng = (True, c, e)" by simp
  then have "inliers_valid img c"
    by (rule hypothesize_pose_inliers_valid)
  then show ?thesis by (simp add: cand inliers_valid_def)
qed

lemma sample_pixel_valid:
  assumes "sample_pixel img msk sampled eng = (v, msk', sampled', eng')"
    and "pixels_valid img sampled"
  shows "pixels_valid img sampled'"
  using assms unfolding sample_pixel_def Let_def pixels_valid_def valid_inlier_source_def
  by (auto split: prod.splits if_splits)

lemma sample_valid_pixel_valid:
  assumes "sample_valid_pixel img v it msk sampled eng = (v', msk', sampled', eng')"
    and "pixels_valid img sampled"
  shows "pixels_valid img sampled'"
  using assms
proof (induction img v it msk sampled eng rule: sample_valid_pixel.induct)
  case (1 img validIndex innerIterations msk sampled eng)
  show ?case
  proof (cases "\<not> validIndex \<and> innerIterations < 50")
    case True
    obtain v1 m1 s1 e1 where step: "sample_pixel img msk sampled eng = (v1, m1, s1, e1)"
      by (cases "sample_pixel img msk sampled eng") auto
    have valid1: "pixels_valid img s1"
      by (rule sample_pixel_valid [OF step "1.prems"(2)])
    have "sample_valid_pixel img v1 (innerIterations + 1) m1 s1 e1 = (v', msk', sampled', eng')"
      using "1.prems"(1) True step by (subst (asm) sample_valid_pixel.simps) simp
    from "1.IH" [OF True step [symmetric] refl refl this valid1] show ?thesis .
  next
    case False
    then show ?thesis
      using "1.prems" by (subst (asm) sample_valid_pixel.simps) auto
  qed
qed

lemma sample_pixels_loop_valid:
  assumes "sample_pixels_loop img i batchSize msk sampled eng = (msk', sampled', eng')"
    and "pixels_valid img sampled"
  shows "pixels_valid img sampled'"
  using assms
proof (induction img i batchSize msk sampled eng rule: sample_pixels_loop.induct)
  case (1 img i batchSize msk sampled eng)
  show ?case
  proof (cases "i < batchSize")
    case True
    obtain v1 m1 s1 e1 where
      step: "sample_valid_pixel img False 0 msk sampled eng = (v1, m1, s1, e1)"
      by (cases "sample_valid_pixel img False 0 msk sampled eng") auto
    have valid1: "pixels_valid img s1"
      by (rule sample_valid_pixel_valid [OF step "1.prems"(2)])
    show ?thesis
    proof (cases v1)
      case False
      then have "sampled' = s1"
        using "1.prems"(1) True step by (subst (asm) sample_pixels_loop.simps) simp
      then show ?thesis using valid1 by simp
    next
      case v: True
      then have "sample_pixels_loop img (i + 1) batchSize m1 s1 e1 = (msk', sampled', eng')"
        using "1.prems"(1) True step by (subst (asm) sample_pixels_loop.simps) simp
      from "1.IH" [OF True step [symmetric] refl refl _ this valid1] v show ?thesis by simp
    qed
  next
    case False
    then show ?thesis
      using "1.prems" by (subst (asm) sample_pixels_loop.simps) auto
  qed
qed

lemma sample_pixels_for_ransac_valid:
  assumes "sample_pixels_for_ransac img msk [] eng batchSize = (msk', sampled', eng')"
  shows "pixels_valid img sampled'"
  using assms unfolding sample_pixels_for_ransac_def
  by (rule sample_pixels_loop_valid) (simp add: pixels_valid_def)

lemma update_inliers_valid:
  assumes "pixels_valid img sampled" and "\<forall>c \<in> set candidates. inliers_valid img c"
  shows "\<forall>c \<in> set (update_inliers_for_optimization img sampled candidates).
           inliers_valid img c"
  using assms
  by (auto simp: update_inliers_for_optimization_def inliers_valid_def pixels_valid_def)

lemma update_inliers_length:
  "length (update_inliers_for_optimization img sampled candidates) = length candidates"
  by (simp add: update_inliers_for_optimization_def)

lemma compute_energies_inliers:
  "compute_energies q img candidates = Inr scored \<Longrightarrow>
     map inliers scored = map inliers candidates"
  by (induction candidates arbitrary: scored) (auto split: sum.splits)

lemma compute_energies_valid:
  "compute_energies q img candidates = Inr scored \<Longrightarrow>
   \<forall>c \<in> set candidates. inliers_valid img c \<Longrightarrow>
   \<forall>c \<in> set scored. inliers_valid img c"
proof (induction candidates arbitrary: scored)
  case Nil
  then show ?case by simp
next
  case (Cons c rest)
  from Cons.prems(1) obtain en rest' where
    rest: "compute_energies q img rest = Inr rest'" and
    scored: "scored = c \<lparr> energy := en \<rparr> # rest'"
    by (auto split: sum.splits)
  have "\<forall>c \<in> set rest'. inliers_valid img c"
    using Cons.IH [OF rest] Cons.prems(2) by simp
  moreover have "inliers_valid img (c \<lparr> energy := en \<rparr>)"
    using Cons.prems(2) by (simp add: inliers_valid_def)
  ultimately show ?case by (simp add: scored)
qed

lemma compute_energies_length:
  "compute_energies q img candidates = Inr scored \<Longrightarrow> length scored = length candidates"
  by (induction candidates arbitrary: scored) (auto split: sum.splits)

lemma compute_and_sort_energies_length:
  assumes "compute_and_sort_energies q img candidates = Inr sortedCandidates"
  shows "length sortedCandidates = length candidates"
proof -
  from assms obtain scored where s: "compute_energies q img candidates = Inr scored"
    and sorted: "sortedCandidates = sort_key energy scored"
    by (auto simp: compute_and_sort_energies_def split: sum.splits)
  from compute_energies_length [OF s] show ?thesis by (simp add: sorted)
qed

lemma compute_and_sort_energies_valid:
  assumes "compute_and_sort_energies q img candidates = Inr sortedCandidates"
    and "\<forall>c \<in> set candidates. inliers_valid img c"
  shows "\<forall>c \<in> set sortedCandidates. inliers_valid img c"
proof -
  from assms(1) obtain scored where s: "compute_energies q img candidates = Inr scored"
    and sorted: "sortedCandidates = sort_key energy scored"
    by (auto simp: compute_and_sort_energies_def split: sum.splits)
  have "\<forall>c \<in> set scored. inliers_valid img c"
    by (rule compute_energies_valid [OF s assms(2)])
  then show ?thesis by (simp add: sorted)
qed

lemma update_candidate_poses_Inr:
  "update_candidate_poses candidates = Inr updated \<Longrightarrow> candidates = [] \<and> updated = []"
  by (cases candidates) (auto simp: update_candidate_pose_def)

subsection \<open>The rounds of the main loop\<close>

lemma ransac_round_length:
  assumes "ransac_round q cfg img candidates msk eng = Inr (candidates', msk', eng')"
  shows "length candidates' = length candidates div 2"
proof -
  obtain m1 sampled e1 where
    s: "sample_pixels_for_ransac img msk [] eng (m_batchSizeRansac cfg) = (m1, sampled, e1)"
    by (cases "sample_pixels_for_ransac img msk [] eng (m_batchSizeRansac cfg)") auto
  let ?ext = "update_inliers_for_optimization img sampled candidates"
  from assms s obtain extended sortedCandidates where
    ext: "(if m_poseUpdate cfg then update_candidate_poses ?ext else Inr ?ext) = Inr extended"
    and srt: "compute_and_sort_energies q img extended = Inr sortedCandidates"
    and res: "candidates' = take (length sortedCandidates div 2) sortedCandidates"
    by (auto simp: ransac_round_def split: sum.splits)
  have "length extended = length ?ext"
    using ext update_candidate_poses_Inr [of ?ext extended]
    by (auto split: if_splits)
  then have "length extended = length candidates"
    by (simp add: update_inliers_length)
  with compute_and_sort_energies_length [OF srt] show ?thesis
    by (simp add: res)
qed

lemma ransac_round_valid:
  assumes "ransac_round q cfg img candidates msk eng = Inr (candidates', msk', eng')"
    and "\<forall>c \<in> set candidates. inliers_valid img c"
  shows "\<forall>c \<in> set candidates'. inliers_valid img c"
proof -
  obtain m1 sampled e1 where
    s: "sample_pixels_for_ransac img msk [] eng (m_batchSizeRansac cfg) = (m1, sampled, e1)"
    by (cases "sample_pixels_for_ransac img msk [] eng (m_batchSizeRansac cfg)") auto
  let ?ext = "update_inliers_for_optimization img sampled candidates"
  from assms(1) s obtain extended sortedCandidates where
    ext: "(if m_poseUpdate cfg then update_candidate_poses ?ext else Inr ?ext) = Inr extended"
    and srt: "compute_and_sort_energies q img extended = Inr sortedCandidates"
    and res: "candidates' = take (length sortedCandidates div 2) sortedCandidates"
    by (auto simp: ransac_round_def split: sum.splits)
  have "\<forall>c \<in> set ?ext. inliers_valid img c"
    by (rule update_inliers_valid [OF sample_pixels_for_ransac_valid [OF s] assms(2)])
  then have "\<forall>c \<in> set extended. inliers_valid img c"
    using ext update_candidate_poses_Inr [of ?ext extended] by (auto split: if_splits)
  then have "\<forall>c \<in> set sortedCandidates. inliers_valid img c"
    by (rule compute_and_sort_energies_valid [OF srt])
  then show ?thesis
    unfolding res by (meson in_set_takeD)
qed



lemma ransac_loop_valid:
  assumes "ransac_loop q cfg img candidates msk eng = Some (Inr final)"
    and "\<forall>c \<in> set candidates. inliers_valid img c"
  shows "\<forall>c \<in> set final. inliers_valid img c"
  using assms
proof (induction "length candidates" arbitrary: candidates msk eng rule: less_induct)
  case less
  show ?case
  proof (cases "length candidates > 1")
    case False
    with less.prems(1) have "final = candidates"
      by (subst (asm) ransac_loop.simps) simp
    with less.prems(2) show ?thesis by simp
  next
    case True
    from less.prems(1) True obtain cs' m' e' where
      round: "ransac_round q cfg img candidates msk eng = Inr (cs', m', e')"
      and rest: "ransac_loop q cfg img cs' m' e' = Some (Inr final)"
      by (subst (asm) ransac_loop.simps) (auto split: sum.splits)
    have "length cs' < length candidates"
      using ransac_round_length [OF round] True by simp
    from less.hyps [OF this rest ransac_round_valid [OF round less.prems(2)]]
    show ?thesis .
  qed
qed

lemma first_trim_valid:
  assumes "first_trim q cfg img candidates eng = Inr (candidates', eng')"
    and "\<forall>c \<in> set candidates. inliers_valid img c"
  shows "\<forall>c \<in> set candidates'. inliers_valid img c"
proof (cases "m_trimKinitAfterFirstEnergyComputation cfg < length candidates")
  case False
  with assms show ?thesis by (simp add: first_trim_def)
next
  case True
  obtain m1 sampled e1 where
    s: "sample_pixels_for_ransac img [] [] eng (m_batchSizeRansac cfg) = (m1, sampled, e1)"
    by (cases "sample_pixels_for_ransac img [] [] eng (m_batchSizeRansac cfg)") auto
  let ?ext = "update_inliers_for_optimization img sampled candidates"
  let ?n = "length (inliers (candidates ! 0))"
  let ?cap = "\<lambda>candidate. if length (inliers candidate) > ?n
      then candidate \<lparr> inliers := take ?n (inliers candidate) \<rparr> else candidate"
  from assms(1) True s obtain sortedCandidates where
    srt: "compute_and_sort_energies q img ?ext = Inr sortedCandidates"
    and res: "candidates' =
      (if m_trimKinitAfterFirstEnergyComputation cfg > 1
       then map ?cap (take (m_trimKinitAfterFirstEnergyComputation cfg) sortedCandidates)
       else take (m_trimKinitAfterFirstEnergyComputation cfg) sortedCandidates)"
    by (auto simp: first_trim_def Let_def split: sum.splits)
  have "\<forall>c \<in> set ?ext. inliers_valid img c"
    by (rule update_inliers_valid [OF sample_pixels_for_ransac_valid [OF s] assms(2)])
  then have sorted_valid: "\<forall>c \<in> set sortedCandidates. inliers_valid img c"
    by (rule compute_and_sort_energies_valid [OF srt])
  then have kept: "\<forall>c \<in> set (take (m_trimKinitAfterFirstEnergyComputation cfg) sortedCandidates).
      inliers_valid img c"
    by (meson in_set_takeD)
  have cap: "inliers_valid img c \<Longrightarrow> inliers_valid img (?cap c)" for c
    by (auto simp: inliers_valid_def dest: in_set_takeD)
  let ?kept = "take (m_trimKinitAfterFirstEnergyComputation cfg) sortedCandidates"
  have capped: "\<forall>c \<in> set (map ?cap ?kept). inliers_valid img c"
  proof
    fix c assume "c \<in> set (map ?cap ?kept)"
    then obtain c0 where c0: "c0 \<in> set ?kept" and c: "c = ?cap c0" by auto
    from kept c0 have "inliers_valid img c0" by blast
    then show "inliers_valid img c" unfolding c by (rule cap)
  qed
  show ?thesis
  proof (cases "m_trimKinitAfterFirstEnergyComputation cfg > 1")
    case True
    then have "candidates' = map ?cap ?kept" using res by simp
    then show ?thesis using capped by simp
  next
    case False
    then have "candidates' = ?kept" using res by simp
    then show ?thesis using kept by simp
  qed
qed

lemma estimate_pose_valid:
  assumes "estimate_pose q cfg img generated eng = Some (Inr (Some candidate))"
    and "\<forall>c \<in> set generated. inliers_valid img c"
  shows "inliers_valid img candidate"
proof -
  from assms(1) obtain cs e1 final where
    trim: "first_trim q cfg img generated eng = Inr (cs, e1)"
    and loop: "ransac_loop q cfg img cs
        (replicate (noDims_width img * noDims_height img) False) e1 = Some (Inr final)"
    and final: "final \<noteq> []" "candidate = final ! 0"
    by (auto simp: estimate_pose_def split: sum.splits option.splits if_splits)
  have "\<forall>c \<in> set final. inliers_valid img c"
    by (rule ransac_loop_valid [OF loop first_trim_valid [OF trim assms(2)]])
  with final show ?thesis by (simp add: hd_conv_nth [symmetric])
qed

text \<open>
  C5. Every inlier added to a pose candidate, at every stage, names a feature whose
  fourth position component is non-negative and a prediction with at least one mode:
  the candidate that an iteration of \<open>generate_pose_candidates\<close> appends has only such
  inliers, every pixel that \<open>sample_pixels_for_ransac\<close> samples for a round is such a
  pixel, and the candidate that \<open>estimate_pose\<close> returns from generated candidates with
  such inliers has only such inliers.
\<close>

theorem inliers_reference_valid_sources:
  "(\<forall>candidate eng'.
      generate_pose_candidate Kabsch cfg img i candidate0 eng = (Some candidate, eng')
        \<longrightarrow> inliers_valid img candidate)
   \<and> (\<forall>s \<in> set (fst (snd (sample_pixels_for_ransac img msk [] eng batchSize))).
        valid_inlier_source img (snd s * noDims_width img + fst s))
   \<and> ((\<forall>c \<in> set generated. inliers_valid img c) \<longrightarrow>
        (\<forall>candidate. estimate_pose q cfg img generated random_engine
             = Some (Inr (Some candidate)) \<longrightarrow> inliers_valid img candidate))"
proof (intro conjI allI impI)
  fix candidate eng'
  assume "generate_pose_candidate Kabsch cfg img i candidate0 eng = (Some candidate, eng')"
  then show "inliers_valid img candidate"
    by (rule generate_pose_candidate_inliers_valid)
next
  obtain m1 sampled e1 where
    s: "sample_pixels_for_ransac img msk [] eng batchSize = (m1, sampled, e1)"
    by (cases "sample_pixels_for_ransac img msk [] eng batchSize") auto
  from sample_pixels_for_ransac_valid [OF s]
  show "\<forall>s \<in> set (fst (snd (sample_pixels_for_ransac img msk [] eng batchSize))).
        valid_inlier_source img (snd s * noDims_width img + fst s)"
    by (simp add: s pixels_valid_def)
next
  fix candidate
  assume "\<forall>c \<in> set generated. inliers_valid img c"
    and "estimate_pose q cfg img generated random_engine = Some (Inr (Some candidate))"
  then show "inliers_valid img candidate"
    using estimate_pose_valid by blast
qed

lemma row_generate:
  "generate_pose_candidate identity_Kabsch constructed row_image 7 blank_candidate row_engine
     = (Some \<lparr> cameraPose = identity_pose, inliers = [(1, 0), (2, 0), (3, 0)], energy = 0,
               cameraId = 7 \<rparr>, sconst 0)"
  by (simp add: generate_pose_candidate_def hypothesize_pose_single_attempt select_points_row
      constructed_fields make_candidate_def row_image_fields identity_Kabsch_def)

lemma row_sample:
  "sample_pixels_for_ransac row_image [] [] row_engine 1
     = ([], [(1, 0)], 0 ## 2 ## 0 ## 0 ## 3 ## 0 ## 0 ## sconst 0)"
  by (simp add: sample_pixels_for_ransac_def sample_pixels_loop.simps
      sample_valid_pixel.simps sample_pixel_def row_image_fields row_engine_def
      uniform_int_distribution_def)

lemma row_estimate_single:
  "estimate_pose unit_query constructed row_image
     [\<lparr> cameraPose = identity_pose, inliers = [(1, 0), (2, 0), (3, 0)], energy = 0,
        cameraId = 7 \<rparr>] (sconst 0)
   = Some (Inr (Some \<lparr> cameraPose = identity_pose, inliers = [(1, 0), (2, 0), (3, 0)],
         energy = 0, cameraId = 7 \<rparr>))"
  by (simp add: estimate_pose_def first_trim_def constructed_fields ransac_loop.simps)

theorem inliers_reference_valid_sources_witness:
  "generate_pose_candidate identity_Kabsch constructed row_image 7 blank_candidate row_engine
     = (Some \<lparr> cameraPose = identity_pose, inliers = [(1, 0), (2, 0), (3, 0)], energy = 0,
               cameraId = 7 \<rparr>, sconst 0)
   \<and> inliers_valid row_image
        \<lparr> cameraPose = identity_pose, inliers = [(1, 0), (2, 0), (3, 0)], energy = 0,
          cameraId = 7 \<rparr>
   \<and> fst (snd (sample_pixels_for_ransac row_image [] [] row_engine 1)) = [(1, 0)]
   \<and> valid_inlier_source row_image 1
   \<and> estimate_pose unit_query constructed row_image
        [\<lparr> cameraPose = identity_pose, inliers = [(1, 0), (2, 0), (3, 0)], energy = 0,
           cameraId = 7 \<rparr>] (sconst 0)
      = Some (Inr (Some \<lparr> cameraPose = identity_pose, inliers = [(1, 0), (2, 0), (3, 0)],
            energy = 0, cameraId = 7 \<rparr>))"
proof -
  let ?c = "\<lparr> cameraPose = identity_pose, inliers = [(1, 0), (2, 0), (3, 0)], energy = 0,
              cameraId = 7 \<rparr>"
  note inst = inliers_reference_valid_sources [of identity_Kabsch constructed row_image 7
      blank_candidate row_engine "[]" 1 "[?c]" unit_query "sconst 0"]
  have valid: "inliers_valid row_image ?c"
    using inst [THEN conjunct1] row_generate by blast
  have "\<forall>s \<in> set [(1::nat, 0::nat)]. valid_inlier_source row_image
      (snd s * noDims_width row_image + fst s)"
    using inst [THEN conjunct2, THEN conjunct1] by (simp only: row_sample fst_conv snd_conv)
  then have pixel: "valid_inlier_source row_image 1" by simp
  have "\<forall>c \<in> set [?c]. inliers_valid row_image c" using valid by simp
  with inst [THEN conjunct2, THEN conjunct2] row_estimate_single
  have "inliers_valid row_image ?c" by blast
  with pixel row_generate row_sample row_estimate_single show ?thesis by simp
qed

subsection \<open>Termination and result of the main loop\<close>




lemma row_sample_pixel_fails:
  "sample_pixel row_image msk sampled (sconst 0) = (False, msk, sampled, sconst 0)"
  by (simp add: sample_pixel_def row_image_fields uniform_int_distribution_def)

lemma row_sample_valid_pixel_fails:
  "sample_valid_pixel row_image False it msk sampled (sconst 0)
     = (False, msk, sampled, sconst 0)"
proof (induction "50 - it" arbitrary: it)
  case 0
  then show ?case by (subst sample_valid_pixel.simps) simp
next
  case (Suc n)
  then have "n = 50 - (it + 1)" "it < 50" by simp_all
  with Suc.hyps(1) [of "it + 1"] show ?case
    by (subst sample_valid_pixel.simps) (simp add: row_sample_pixel_fails)
qed

lemma row_sample_pixels_fails:
  "sample_pixels_for_ransac row_image msk [] (sconst 0) n = (msk, [], sconst 0)"
  unfolding sample_pixels_for_ransac_def
  by (subst sample_pixels_loop.simps) (simp add: row_sample_valid_pixel_fails)

lemma row_update_inliers_none:
  "update_inliers_for_optimization row_image [] candidates = candidates"
  by (simp add: update_inliers_for_optimization_def)

lemma row_energy_no_mode:
  "compute_pose_energy no_mode_query row_image identity_pose [(Suc 0, 0), (2, 0), (3, 0)]
     = Inl NoValidModes"
  by (simp add: compute_pose_energy_def no_mode_query_def)

lemma row_round_no_mode:
  "ransac_round no_mode_query constructed row_image [row_candidate 0, row_candidate 1] msk
     (sconst 0) = Inl ProcessTerminated"
  by (simp add: ransac_round_def row_sample_pixels_fails row_update_inliers_none
      constructed_fields compute_and_sort_energies_def row_candidate_def row_energy_no_mode)

lemma row_first_trim:
  "first_trim q constructed row_image [row_candidate 0, row_candidate 1] eng
     = Inr ([row_candidate 0, row_candidate 1], eng)"
  by (simp add: first_trim_def constructed_fields)

subsection \<open>Raised errors\<close>

lemma compute_pose_energy_loop_raises:
  "isl (compute_pose_energy_loop q img pose inliersIndices acc)
     \<longleftrightarrow> (\<exists>inlier \<in> set inliersIndices. violates_invariant q img pose inlier)"
  by (induction inliersIndices arbitrary: acc)
     (auto simp: violates_invariant_def Let_def split: prod.splits)

lemma compute_pose_energy_loop_error:
  "compute_pose_energy_loop q img pose inliersIndices acc = Inl e
     \<Longrightarrow> e = NoValidModes \<or> e = ModeHasNoInliers"
  by (induction inliersIndices arbitrary: acc)
     (auto simp: Let_def split: prod.splits if_splits)

lemma compute_pose_energy_raises:
  "isl (compute_pose_energy q img pose inliersIndices)
     \<longleftrightarrow> (\<exists>inlier \<in> set inliersIndices. violates_invariant q img pose inlier)"
  using compute_pose_energy_loop_raises [of q img pose inliersIndices 0]
  by (cases "compute_pose_energy_loop q img pose inliersIndices 0")
     (simp_all add: compute_pose_energy_def)

lemma compute_pose_energy_error:
  "compute_pose_energy q img pose inliersIndices = Inl e
     \<Longrightarrow> e = NoValidModes \<or> e = ModeHasNoInliers"
  using compute_pose_energy_loop_error [of q img pose inliersIndices 0 e]
  by (cases "compute_pose_energy_loop q img pose inliersIndices 0")
     (simp_all add: compute_pose_energy_def)

lemma fatal_eq: "(f :: fatal) = ProcessTerminated"
  by (cases f) simp

lemma compute_energies_raises:
  "isl (compute_energies q img candidates) \<longleftrightarrow> scoring_violation q img candidates"
proof (induction candidates)
  case Nil
  then show ?case by (simp add: scoring_violation_def)
next
  case (Cons c rest)
  have head: "isl (compute_pose_energy q img (cameraPose c) (inliers c))
      \<longleftrightarrow> (\<exists>inlier \<in> set (inliers c). violates_invariant q img (cameraPose c) inlier)"
    by (rule compute_pose_energy_raises)
  have split: "scoring_violation q img (c # rest)
      \<longleftrightarrow> (\<exists>inlier \<in> set (inliers c). violates_invariant q img (cameraPose c) inlier)
          \<or> scoring_violation q img rest"
    by (simp add: scoring_violation_def)
  show ?case
  proof (cases "compute_pose_energy q img (cameraPose c) (inliers c)")
    case (Inl e)
    with head split show ?thesis by simp
  next
    case (Inr en)
    with head have "\<not> (\<exists>inlier \<in> set (inliers c).
        violates_invariant q img (cameraPose c) inlier)" by simp
    with split Cons.IH Inr show ?thesis
      by (cases "compute_energies q img rest") simp_all
  qed
qed

lemma compute_and_sort_energies_raises:
  "compute_and_sort_energies q img candidates = Inl ProcessTerminated
     \<longleftrightarrow> scoring_violation q img candidates"
  using compute_energies_raises [of q img candidates]
  by (cases "compute_energies q img candidates")
     (simp_all add: compute_and_sort_energies_def fatal_eq)

lemma update_candidate_poses_raises:
  "update_candidate_poses candidates = Inl ProcessTerminated \<longleftrightarrow> candidates \<noteq> []"
  by (cases candidates) (simp_all add: update_candidate_pose_def)

lemma first_trim_raises:
  "first_trim q cfg img generated eng = Inl ProcessTerminated
     \<longleftrightarrow> m_trimKinitAfterFirstEnergyComputation cfg < length generated
         \<and> scoring_violation q img
             (update_inliers_for_optimization img
                (fst (snd (sample_pixels_for_ransac img [] [] eng (m_batchSizeRansac cfg))))
                generated)"
proof (cases "m_trimKinitAfterFirstEnergyComputation cfg < length generated")
  case False
  then show ?thesis by (simp add: first_trim_def)
next
  case True
  obtain m1 sampled e1 where
    s: "sample_pixels_for_ransac img [] [] eng (m_batchSizeRansac cfg) = (m1, sampled, e1)"
    by (cases "sample_pixels_for_ransac img [] [] eng (m_batchSizeRansac cfg)") auto
  let ?ext = "update_inliers_for_optimization img sampled generated"
  show ?thesis
  proof (cases "compute_and_sort_energies q img ?ext")
    case (Inl f)
    then have "scoring_violation q img ?ext"
      using compute_and_sort_energies_raises [of q img ?ext] by (simp add: fatal_eq)
    with True s Inl show ?thesis by (simp add: first_trim_def Let_def fatal_eq)
  next
    case (Inr sortedCandidates)
    then have "\<not> scoring_violation q img ?ext"
      using compute_and_sort_energies_raises [of q img ?ext] by simp
    with True s Inr show ?thesis by (simp add: first_trim_def Let_def)
  qed
qed

lemma ransac_round_raises:
  "ransac_round q cfg img candidates msk eng = Inl ProcessTerminated
     \<longleftrightarrow> (m_poseUpdate cfg \<and> candidates \<noteq> [])
         \<or> scoring_violation q img
             (update_inliers_for_optimization img
                (fst (snd (sample_pixels_for_ransac img msk [] eng (m_batchSizeRansac cfg))))
                candidates)"
proof -
  obtain m1 sampled e1 where
    s: "sample_pixels_for_ransac img msk [] eng (m_batchSizeRansac cfg) = (m1, sampled, e1)"
    by (cases "sample_pixels_for_ransac img msk [] eng (m_batchSizeRansac cfg)") auto
  let ?ext = "update_inliers_for_optimization img sampled candidates"
  have ext_Nil: "?ext = [] \<longleftrightarrow> candidates = []"
    by (simp add: update_inliers_for_optimization_def)
  show ?thesis
  proof (cases "m_poseUpdate cfg")
    case True
    show ?thesis
    proof (cases "candidates = []")
      case empty: True
      then have "?ext = []" using ext_Nil by simp
      with True s empty show ?thesis
        by (simp add: ransac_round_def compute_and_sort_energies_def scoring_violation_def)
    next
      case False
      then have "update_candidate_poses ?ext = Inl ProcessTerminated"
        using ext_Nil update_candidate_poses_raises [of ?ext] by simp
      with True s False show ?thesis by (simp add: ransac_round_def)
    qed
  next
    case False
    show ?thesis
    proof (cases "compute_and_sort_energies q img ?ext")
      case (Inl f)
      then have "scoring_violation q img ?ext"
        using compute_and_sort_energies_raises [of q img ?ext] by (simp add: fatal_eq)
      with False s Inl show ?thesis by (simp add: ransac_round_def fatal_eq)
    next
      case (Inr sortedCandidates)
      then have "\<not> scoring_violation q img ?ext"
        using compute_and_sort_energies_raises [of q img ?ext] by simp
      with False s Inr show ?thesis by (simp add: ransac_round_def)
    qed
  qed
qed

lemma ransac_loop_raised:
  "1 < length candidates \<Longrightarrow> ransac_round q cfg img candidates msk eng = Inl f
     \<Longrightarrow> ransac_loop q cfg img candidates msk eng = Some (Inl ProcessTerminated)"
  by (subst ransac_loop.simps) (simp add: fatal_eq)

lemma ransac_loop_continues:
  "1 < length candidates \<Longrightarrow>
   ransac_round q cfg img candidates msk eng = Inr (candidates', msk', eng')
     \<Longrightarrow> ransac_loop q cfg img candidates msk eng
         = ransac_loop q cfg img candidates' msk' eng'"
  by (subst ransac_loop.simps) simp

lemma estimate_pose_raises:
  "estimate_pose q cfg img generated eng = Some (Inl ProcessTerminated)
     \<longleftrightarrow> first_trim q cfg img generated eng = Inl ProcessTerminated
         \<or> (\<exists>trimmed eng'.
              first_trim q cfg img generated eng = Inr (trimmed, eng')
            \<and> ransac_loop q cfg img trimmed
                 (replicate (noDims_width img * noDims_height img) False) eng'
               = Some (Inl ProcessTerminated))"
proof (cases "first_trim q cfg img generated eng")
  case (Inl f)
  then show ?thesis by (simp add: estimate_pose_def fatal_eq)
next
  case (Inr r)
  obtain trimmed e1 where r: "r = (trimmed, e1)" by (cases r)
  show ?thesis
  proof (cases "ransac_loop q cfg img trimmed
      (replicate (noDims_width img * noDims_height img) False) e1")
    case None
    with Inr r show ?thesis by (simp add: estimate_pose_def)
  next
    case (Some res)
    with Inr r show ?thesis
      by (cases res) (simp_all add: estimate_pose_def fatal_eq)
  qed
qed

lemma process_relocalisation_raises:
  "process_relocalisation q cfg img generated eng countValidDepths track trackingResult
     = Some (Inl ProcessTerminated)
   \<longleftrightarrow> trackingResult = TRACKING_FAILED
       \<and> \<not> countValidDepths < max (m_nbPointsForKabschBoostrap cfg) (m_batchSizeRansac cfg)
       \<and> estimate_pose q cfg img generated eng = Some (Inl ProcessTerminated)"
proof (cases "estimate_pose q cfg img generated eng")
  case None
  then show ?thesis by (simp add: process_relocalisation_def)
next
  case (Some res)
  show ?thesis
  proof (cases res)
    case (Inl f)
    with Some show ?thesis by (simp add: process_relocalisation_def fatal_eq)
  next
    case (Inr found)
    with Some show ?thesis by (cases found) (simp_all add: process_relocalisation_def)
  qed
qed

text \<open>
  C6. \<open>compute_pose_energy\<close> raises an invariant violation exactly when, for some
  inlier, the best-mode query returns a negative mode index or the matched mode records
  no supporting inliers; \<open>update_candidate_pose\<close> always raises; and none of these
  errors is caught within the relocalisation component. Both functions are called only
  by the iterations of the scoring and refinement loops, where a raised error ends the
  run: the scoring ends the run exactly when an inlier of a candidate violates an
  invariant, the refinement whenever it has a candidate, and the first trim, a round of
  the main loop, the main loop, \<open>estimate_pose\<close> and \<open>process_relocalisation\<close> then end
  with it instead of returning a result.
\<close>

theorem errors_raised_and_propagated:
  "(isl (compute_pose_energy q img pose inliersIndices)
      \<longleftrightarrow> (\<exists>inlier \<in> set inliersIndices. violates_invariant q img pose inlier))
   \<and> (\<forall>e. compute_pose_energy q img pose inliersIndices = Inl e
          \<longrightarrow> e = NoValidModes \<or> e = ModeHasNoInliers)
   \<and> update_candidate_pose poseCandidate = Inl NotUpdatedYet
   \<and> (compute_and_sort_energies q img candidates = Inl ProcessTerminated
        \<longleftrightarrow> scoring_violation q img candidates)
   \<and> (update_candidate_poses candidates = Inl ProcessTerminated \<longleftrightarrow> candidates \<noteq> [])
   \<and> (first_trim q cfg img generated random_engine = Inl ProcessTerminated
        \<longleftrightarrow> m_trimKinitAfterFirstEnergyComputation cfg < length generated
            \<and> scoring_violation q img
                (update_inliers_for_optimization img
                   (fst (snd (sample_pixels_for_ransac img [] [] random_engine
                                (m_batchSizeRansac cfg))))
                   generated))
   \<and> (ransac_round q cfg img candidates msk eng = Inl ProcessTerminated
        \<longleftrightarrow> (m_poseUpdate cfg \<and> candidates \<noteq> [])
            \<or> scoring_violation q img
                (update_inliers_for_optimization img
                   (fst (snd (sample_pixels_for_ransac img msk [] eng (m_batchSizeRansac cfg))))
                   candidates))
   \<and> (1 < length candidates
        \<and> ransac_round q cfg img candidates msk eng = Inl ProcessTerminated
        \<longrightarrow> ransac_loop q cfg img candidates msk eng = Some (Inl ProcessTerminated))
   \<and> (\<forall>candidates' msk' eng'. 1 < length candidates
        \<and> ransac_round q cfg img candidates msk eng = Inr (candidates', msk', eng')
        \<longrightarrow> ransac_loop q cfg img candidates msk eng
            = ransac_loop q cfg img candidates' msk' eng')
   \<and> (estimate_pose q cfg img generated random_engine = Some (Inl ProcessTerminated)
        \<longleftrightarrow> first_trim q cfg img generated random_engine = Inl ProcessTerminated
            \<or> (\<exists>trimmed eng'.
                 first_trim q cfg img generated random_engine = Inr (trimmed, eng')
               \<and> ransac_loop q cfg img trimmed
                    (replicate (noDims_width img * noDims_height img) False) eng'
                  = Some (Inl ProcessTerminated)))
   \<and> (process_relocalisation q cfg img generated random_engine countValidDepths track
          trackingResult = Some (Inl ProcessTerminated)
        \<longleftrightarrow> trackingResult = TRACKING_FAILED
            \<and> \<not> countValidDepths
                  < max (m_nbPointsForKabschBoostrap cfg) (m_batchSizeRansac cfg)
            \<and> estimate_pose q cfg img generated random_engine
                = Some (Inl ProcessTerminated))"
proof -
  have a: "isl (compute_pose_energy q img pose inliersIndices)
      \<longleftrightarrow> (\<exists>inlier \<in> set inliersIndices. violates_invariant q img pose inlier)"
    by (rule compute_pose_energy_raises)
  have b: "\<forall>e. compute_pose_energy q img pose inliersIndices = Inl e
          \<longrightarrow> e = NoValidModes \<or> e = ModeHasNoInliers"
    using compute_pose_energy_error by blast
  have c: "update_candidate_pose poseCandidate = Inl NotUpdatedYet"
    by (simp add: update_candidate_pose_def)
  note d = compute_and_sort_energies_raises [of q img candidates]
  note e = update_candidate_poses_raises [of candidates]
  note f = first_trim_raises [of q cfg img generated random_engine]
  note g = ransac_round_raises [of q cfg img candidates msk eng]
  have h: "1 < length candidates
        \<and> ransac_round q cfg img candidates msk eng = Inl ProcessTerminated
        \<longrightarrow> ransac_loop q cfg img candidates msk eng = Some (Inl ProcessTerminated)"
    using ransac_loop_raised by blast
  have i: "\<forall>candidates' msk' eng'. 1 < length candidates
        \<and> ransac_round q cfg img candidates msk eng = Inr (candidates', msk', eng')
        \<longrightarrow> ransac_loop q cfg img candidates msk eng
            = ransac_loop q cfg img candidates' msk' eng'"
    using ransac_loop_continues by blast
  note j = estimate_pose_raises [of q cfg img generated random_engine]
  note k = process_relocalisation_raises [of q cfg img generated random_engine
      countValidDepths track trackingResult]
  show ?thesis
    by (rule conjI [OF a conjI [OF b conjI [OF c conjI [OF d conjI [OF e conjI [OF f
          conjI [OF g conjI [OF h conjI [OF i conjI [OF j k]]]]]]]]]])
qed

lemma row_estimate_no_mode:
  "estimate_pose no_mode_query constructed row_image [row_candidate 0, row_candidate 1]
     (sconst 0) = Some (Inl ProcessTerminated)"
  by (simp add: estimate_pose_def row_first_trim ransac_loop.simps row_round_no_mode)

theorem errors_raised_and_propagated_witness:
  "compute_pose_energy no_mode_query row_image identity_pose [(1, 0), (2, 0), (3, 0)]
     = Inl NoValidModes
   \<and> (\<exists>inlier \<in> set [(1, 0), (2, 0), (3, 0)].
         violates_invariant no_mode_query row_image identity_pose inlier)
   \<and> scoring_violation no_mode_query row_image [row_candidate 0, row_candidate 1]
   \<and> ransac_round no_mode_query constructed row_image [row_candidate 0, row_candidate 1]
        (replicate 4 False) (sconst 0) = Inl ProcessTerminated
   \<and> process_relocalisation no_mode_query constructed row_image
        [row_candidate 0, row_candidate 1] (sconst 0) 1000 (\<lambda>c. TRACKING_GOOD) TRACKING_FAILED
      = Some (Inl ProcessTerminated)
   \<and> update_candidate_pose (row_candidate 0) = Inl NotUpdatedYet
   \<and> ransac_round unit_query (constructed \<lparr> m_poseUpdate := True \<rparr>) row_image
        [row_candidate 0, row_candidate 1] (replicate 4 False) (sconst 0)
      = Inl ProcessTerminated"
proof -
  note inst = errors_raised_and_propagated [of no_mode_query row_image identity_pose
      "[(1, 0), (2, 0), (3, 0)]" "row_candidate 0" "[row_candidate 0, row_candidate 1]"
      constructed "[row_candidate 0, row_candidate 1]" "sconst 0" "replicate 4 False"
      "sconst 0" 1000 "\<lambda>c. TRACKING_GOOD" TRACKING_FAILED]
  note refine = errors_raised_and_propagated [of unit_query row_image identity_pose
      "[(1, 0), (2, 0), (3, 0)]" "row_candidate 0" "[row_candidate 0, row_candidate 1]"
      "constructed \<lparr> m_poseUpdate := True \<rparr>" "[row_candidate 0, row_candidate 1]" "sconst 0"
      "replicate 4 False" "sconst 0" 1000 "\<lambda>c. TRACKING_GOOD" TRACKING_FAILED]
  have raised: "compute_pose_energy no_mode_query row_image identity_pose
      [(1, 0), (2, 0), (3, 0)] = Inl NoValidModes"
    using row_energy_no_mode by simp
  then have "isl (compute_pose_energy no_mode_query row_image identity_pose
      [(1, 0), (2, 0), (3, 0)])" by simp
  with inst [THEN conjunct1]
  have violated: "\<exists>inlier \<in> set [(1, 0), (2, 0), (3, 0)].
      violates_invariant no_mode_query row_image identity_pose inlier"
    by (rule iffD1)
  have scoring: "scoring_violation no_mode_query row_image
      [row_candidate 0, row_candidate 1]"
    using violated by (simp add: scoring_violation_def row_candidate_def)
  have sampled: "update_inliers_for_optimization row_image
      (fst (snd (sample_pixels_for_ransac row_image (replicate 4 False) [] (sconst 0)
                   (m_batchSizeRansac constructed))))
      [row_candidate 0, row_candidate 1] = [row_candidate 0, row_candidate 1]"
    by (simp add: row_sample_pixels_fails row_update_inliers_none)
  have round: "ransac_round no_mode_query constructed row_image
      [row_candidate 0, row_candidate 1] (replicate 4 False) (sconst 0)
      = Inl ProcessTerminated"
    using inst [THEN conjunct2, THEN conjunct2, THEN conjunct2, THEN conjunct2,
        THEN conjunct2, THEN conjunct2, THEN conjunct1] scoring
    by (simp only: sampled simp_thms)
  have enough: "\<not> (1000 :: nat) < max (m_nbPointsForKabschBoostrap constructed)
                              (m_batchSizeRansac constructed)"
    by (simp add: constructed_fields)
  have reloc: "process_relocalisation no_mode_query constructed row_image
        [row_candidate 0, row_candidate 1] (sconst 0) 1000 (\<lambda>c. TRACKING_GOOD) TRACKING_FAILED
      = Some (Inl ProcessTerminated)"
    using inst [THEN conjunct2, THEN conjunct2, THEN conjunct2, THEN conjunct2, THEN conjunct2,
        THEN conjunct2, THEN conjunct2, THEN conjunct2, THEN conjunct2, THEN conjunct2]
      row_estimate_no_mode enough
    by blast
  have disabled: "update_candidate_pose (row_candidate 0) = Inl NotUpdatedYet"
    by (rule refine [THEN conjunct2, THEN conjunct2, THEN conjunct1])
  have "m_poseUpdate (constructed \<lparr> m_poseUpdate := True \<rparr>)
      \<and> [row_candidate 0, row_candidate 1] \<noteq> []" by simp
  with refine [THEN conjunct2, THEN conjunct2, THEN conjunct2, THEN conjunct2,
        THEN conjunct2, THEN conjunct2, THEN conjunct1]
  have refined: "ransac_round unit_query (constructed \<lparr> m_poseUpdate := True \<rparr>) row_image
      [row_candidate 0, row_candidate 1] (replicate 4 False) (sconst 0)
      = Inl ProcessTerminated"
    by blast
  from raised violated scoring round reloc disabled refined show ?thesis by blast
qed

subsection \<open>The value of the energy\<close>

lemma log10_100: "log 10 100 = 2"
proof -
  have "log 10 (10 ^ 2 :: real) = 2" by (subst log_pow_cancel) simp_all
  then show ?thesis by simp
qed

lemma log10_floor: "log 10 (1 / 10 ^ 6) = - 6"
proof -
  have "log 10 (1 / 10 ^ 6) = - log 10 (10 ^ 6)"
    by (simp add: log_divide)
  also have "log 10 (10 ^ 6 :: real) = 6" by (subst log_pow_cancel) simp_all
  finally show ?thesis .
qed


lemma compute_pose_energy_loop_sum:
  "compute_pose_energy_loop q img pose inliersIndices acc = Inr t \<Longrightarrow>
     t = acc + sum_list (map (inlier_contribution q img pose) inliersIndices)"
proof (induction inliersIndices arbitrary: acc)
  case Nil
  then show ?case by simp
next
  case (Cons inlier rest)
  obtain argmax energy0 where
    qr: "q (predictionsData img (fst inlier))
           (mat_mul pose (toVector3 (position (patchFeaturesData img (fst inlier)))))
         = (argmax, energy0)"
    by (cases "q (predictionsData img (fst inlier))
           (mat_mul pose (toVector3 (position (patchFeaturesData img (fst inlier)))))")
  have contribution: "inlier_contribution q img pose inlier
      = - log 10 (floored_energy
          (normalised_energy (predictionsData img (fst inlier)) argmax energy0))"
    by (simp add: inlier_contribution_def inlier_normalised_energy_def qr)
  from Cons.prems qr have
    "compute_pose_energy_loop q img pose rest (acc + inlier_contribution q img pose inlier)
       = Inr t"
    by (simp add: Let_def contribution split: if_splits)
  from Cons.IH [OF this] show ?case by simp
qed

lemma compute_pose_energy_mean:
  assumes "compute_pose_energy q img pose inliersIndices = Inr en"
  shows "en = sum_list (map (inlier_contribution q img pose) inliersIndices)
              / real (length inliersIndices)"
proof -
  from assms obtain t where
    t: "compute_pose_energy_loop q img pose inliersIndices 0 = Inr t"
    and en: "en = t / real (length inliersIndices)"
    by (auto simp: compute_pose_energy_def split: sum.splits)
  from compute_pose_energy_loop_sum [OF t] show ?thesis by (simp add: en)
qed

lemma floored_energy_bounds:
  "1 / 10 ^ 6 \<le> floored_energy x" "x \<le> 1 \<Longrightarrow> floored_energy x \<le> 1"
  by (simp_all add: floored_energy_def)

lemma inlier_contribution_nonneg:
  assumes "inlier_normalised_energy q img pose inlier \<le> 1"
  shows "0 \<le> inlier_contribution q img pose inlier"
proof -
  let ?f = "floored_energy (inlier_normalised_energy q img pose inlier)"
  have "0 < ?f" using floored_energy_bounds(1) [of "inlier_normalised_energy q img pose inlier"]
    by (simp add: less_le_trans [of 0 "1 / 10 ^ 6"])
  moreover have "?f \<le> 1" by (rule floored_energy_bounds(2) [OF assms])
  ultimately have "log 10 ?f \<le> 0" by simp
  then show ?thesis by (simp add: inlier_contribution_def)
qed

lemma inlier_contribution_one:
  assumes "inlier_normalised_energy q img pose inlier = 1"
  shows "inlier_contribution q img pose inlier = 0"
  by (simp add: inlier_contribution_def assms floored_energy_def)

lemma inlier_contribution_floor:
  assumes "inlier_normalised_energy q img pose inlier \<le> 1 / 10 ^ 6"
  shows "inlier_contribution q img pose inlier = 6"
proof -
  have "floored_energy (inlier_normalised_energy q img pose inlier) = 1 / 10 ^ 6"
    using assms by (auto simp: floored_energy_def)
  then show ?thesis by (simp only: inlier_contribution_def log10_floor)
qed

text \<open>
  C3 as the specification states it fails: with one inlier whose mode energy is 100, its
  prediction having one mode with one supporting inlier, the energy of the pose is \<open>-2\<close>.
\<close>

theorem compute_pose_energy_negative:
  "[(1 :: nat, 0 :: int)] \<noteq> []
   \<and> compute_pose_energy sharp_query row_image identity_pose [(1, 0)] = Inr (- 2)
   \<and> (- 2 :: real) < 0"
  by (simp add: compute_pose_energy_def sharp_query_def row_image_fields
      normalised_energy_def floored_energy_def log10_100)

text \<open>
  C3, amended. When \<open>compute_pose_energy\<close> does not raise, its value is the mean over
  the inliers of their contributions, minus the decimal logarithm of the normalised
  energy floored at 1e-6. On a non-empty inlier list the value is non-negative provided
  that no normalised energy exceeds 1. An inlier whose normalised energy is exactly 1
  contributes 0, and an inlier whose normalised energy is at the floor contributes
  exactly 6.
\<close>

theorem compute_pose_energy_value:
  "(\<forall>en. compute_pose_energy q img pose inliersIndices = Inr en \<longrightarrow>
      en = sum_list (map (inlier_contribution q img pose) inliersIndices)
             / real (length inliersIndices))
   \<and> (\<forall>en. inliersIndices \<noteq> []
        \<and> compute_pose_energy q img pose inliersIndices = Inr en
        \<and> (\<forall>inlier \<in> set inliersIndices.
              divisors_nonzero q img pose inlier
              \<and> inlier_normalised_energy q img pose inlier \<le> 1)
        \<longrightarrow> 0 \<le> en)
   \<and> (divisors_nonzero q img pose inlier
        \<and> inlier_normalised_energy q img pose inlier = 1
        \<longrightarrow> inlier_contribution q img pose inlier = 0)
   \<and> (divisors_nonzero q img pose inlier
        \<and> inlier_normalised_energy q img pose inlier \<le> 1 / 10 ^ 6
        \<longrightarrow> inlier_contribution q img pose inlier = 6)"
proof (intro conjI allI impI)
  fix en assume "compute_pose_energy q img pose inliersIndices = Inr en"
  then show "en = sum_list (map (inlier_contribution q img pose) inliersIndices)
             / real (length inliersIndices)"
    by (rule compute_pose_energy_mean)
next
  fix en
  assume a: "inliersIndices \<noteq> []
        \<and> compute_pose_energy q img pose inliersIndices = Inr en
        \<and> (\<forall>inlier \<in> set inliersIndices.
              divisors_nonzero q img pose inlier
              \<and> inlier_normalised_energy q img pose inlier \<le> 1)"
  then have "0 \<le> sum_list (map (inlier_contribution q img pose) inliersIndices)"
    by (intro sum_list_nonneg) (auto intro: inlier_contribution_nonneg)
  moreover from a have "en = sum_list (map (inlier_contribution q img pose) inliersIndices)
             / real (length inliersIndices)"
    using compute_pose_energy_mean by blast
  ultimately show "0 \<le> en" by simp
next
  assume "divisors_nonzero q img pose inlier
        \<and> inlier_normalised_energy q img pose inlier = 1"
  then show "inlier_contribution q img pose inlier = 0"
    by (simp add: inlier_contribution_one)
next
  assume "divisors_nonzero q img pose inlier
        \<and> inlier_normalised_energy q img pose inlier \<le> 1 / 10 ^ 6"
  then show "inlier_contribution q img pose inlier = 6"
    by (simp add: inlier_contribution_floor)
qed

lemma row_energy_unit_one:
  "compute_pose_energy unit_query row_image identity_pose [(Suc 0, 0)] = Inr 0"
  by (simp add: compute_pose_energy_def unit_query_def row_image_fields
      normalised_energy_def floored_energy_def)

theorem compute_pose_energy_value_witness:
  "compute_pose_energy unit_query row_image identity_pose [(1, 0)] = Inr 0
   \<and> divisors_nonzero unit_query row_image identity_pose (1, 0)
   \<and> inlier_normalised_energy unit_query row_image identity_pose (1, 0) = 1
   \<and> inlier_contribution unit_query row_image identity_pose (1, 0) = 0
   \<and> divisors_nonzero (\<lambda>pred v. (0, 1 / 10 ^ 6)) row_image identity_pose (1, 0)
   \<and> inlier_normalised_energy (\<lambda>pred v. (0, 1 / 10 ^ 6)) row_image identity_pose (1, 0)
        = 1 / 10 ^ 6
   \<and> inlier_contribution (\<lambda>pred v. (0, 1 / 10 ^ 6)) row_image identity_pose (1, 0) = 6
   \<and> (0 :: real) \<le> 0"
proof -
  note unit = compute_pose_energy_value [of unit_query row_image identity_pose "[(1, 0)]"
      "(1, 0)"]
  note floor = compute_pose_energy_value [of "\<lambda>pred v. (0, 1 / 10 ^ 6)" row_image
      identity_pose "[(1, 0)]" "(1, 0)"]
  have run: "compute_pose_energy unit_query row_image identity_pose [(1, 0)] = Inr 0"
    using row_energy_unit_one by simp
  have d1: "divisors_nonzero unit_query row_image identity_pose (1, 0)"
    by (simp add: divisors_nonzero_def unit_query_def row_image_fields)
  have n1: "inlier_normalised_energy unit_query row_image identity_pose (1, 0) = 1"
    by (simp add: inlier_normalised_energy_def unit_query_def row_image_fields
        normalised_energy_def)
  have c1: "inlier_contribution unit_query row_image identity_pose (1, 0) = 0"
    using unit [THEN conjunct2, THEN conjunct2, THEN conjunct1] d1 n1 by blast
  have d2: "divisors_nonzero (\<lambda>pred v. (0, 1 / 10 ^ 6)) row_image identity_pose (1, 0)"
    by (simp add: divisors_nonzero_def row_image_fields)
  have n2: "inlier_normalised_energy (\<lambda>pred v. (0, 1 / 10 ^ 6)) row_image identity_pose
      (1, 0) = 1 / 10 ^ 6"
    by (simp add: inlier_normalised_energy_def row_image_fields normalised_energy_def)
  have c2: "inlier_contribution (\<lambda>pred v. (0, 1 / 10 ^ 6)) row_image identity_pose (1, 0)
      = 6"
    using floor [THEN conjunct2, THEN conjunct2, THEN conjunct2] d2 n2 by simp
  have "\<forall>inlier \<in> set [(1 :: nat, 0 :: int)].
      divisors_nonzero unit_query row_image identity_pose inlier
      \<and> inlier_normalised_energy unit_query row_image identity_pose inlier \<le> 1"
    using d1 n1 by simp
  with unit [THEN conjunct2, THEN conjunct1] run have nonneg: "(0 :: real) \<le> 0" by blast
  from run d1 n1 c1 d2 n2 c2 nonneg show ?thesis by blast
qed

subsection \<open>The rounds keep the candidates of lowest energy\<close>














subsection \<open>One attempt per hypothesis\<close>

lemma row_select_point_invalid:
  "select_point cfg row_image selected (0 ## 0 ## s) = (selected, s)"
  by (simp add: select_point_def row_image_fields uniform_int_distribution_def)

lemma row_select_points_skip:
  "it + n \<le> maxIterationsInner \<Longrightarrow> length selected \<noteq> m_nbPointsForKabschBoostrap cfg \<Longrightarrow>
   select_points cfg row_image it selected (replicate (2 * n) 0 @- s)
     = select_points cfg row_image (it + n) selected s"
proof (induction n arbitrary: it)
  case 0
  then show ?case by simp
next
  case (Suc n)
  from Suc.prems have lt: "it < maxIterationsInner" and le: "(it + 1) + n \<le> maxIterationsInner"
    by simp_all
  have "select_points cfg row_image it selected (replicate (2 * Suc n) 0 @- s)
      = select_points cfg row_image (it + 1) selected (replicate (2 * n) 0 @- s)"
    using lt Suc.prems(2)
    by (subst select_points.simps) (simp add: row_select_point_invalid)
  also have "\<dots> = select_points cfg row_image ((it + 1) + n) selected s"
    by (rule Suc.IH [OF le Suc.prems(2)])
  finally show ?case by simp
qed

lemma row_select_points_exhausted:
  "select_points constructed row_image 0 [] (replicate 12000 0 @- row_engine)
     = ([], row_engine)"
proof -
  have "select_points constructed row_image 0 [] (replicate (2 * 6000) 0 @- row_engine)
      = select_points constructed row_image (0 + 6000) [] row_engine"
    by (rule row_select_points_skip) (simp_all add: maxIterationsInner_def constructed_fields)
  also have "\<dots> = ([], row_engine)"
    by (subst select_points.simps) (simp add: maxIterationsInner_def)
  finally show ?thesis by simp
qed

lemma select_point_draws:
  assumes "select_point cfg img selected eng = (selected', eng')"
  shows "eng' = sdrop 2 eng \<or> eng' = sdrop 3 eng"
proof -
  have two: "sdrop 2 eng = stl (stl eng)" and three: "sdrop 3 eng = stl (stl (stl eng))"
    by (simp_all add: numeral_2_eq_2 numeral_3_eq_3)
  from assms show ?thesis
    unfolding select_point_def Let_def uniform_int_distribution_def two three
    by (auto split: prod.splits if_splits)
qed

lemma select_points_draws:
  assumes "select_points cfg img iterationsInner selected eng = (selected', eng')"
  shows "\<exists>n \<le> 3 * (maxIterationsInner - iterationsInner). eng' = sdrop n eng"
  using assms
proof (induction cfg img iterationsInner selected eng rule: select_points.induct)
  case (1 cfg img iterationsInner selected eng)
  show ?case
  proof (cases "length selected \<noteq> m_nbPointsForKabschBoostrap cfg
      \<and> iterationsInner < maxIterationsInner")
    case False
    with "1.prems" have "eng' = sdrop 0 eng"
      by (subst (asm) select_points.simps) auto
    then show ?thesis by blast
  next
    case True
    obtain s1 e1 where step: "select_point cfg img selected eng = (s1, e1)"
      by (cases "select_point cfg img selected eng")
    have rest: "select_points cfg img (iterationsInner + 1) s1 e1 = (selected', eng')"
      using "1.prems" True step by (subst (asm) select_points.simps) simp
    from "1.IH" [OF True step [symmetric] rest] obtain n where
      n: "n \<le> 3 * (maxIterationsInner - (iterationsInner + 1))" and e: "eng' = sdrop n e1"
      by blast
    obtain d where d: "d \<le> 3" and e1: "e1 = sdrop d eng"
    proof (cases "e1 = sdrop 2 eng")
      case True
      with that [of 2] show ?thesis by simp
    next
      case False
      with select_point_draws [OF step] that [of 3] show ?thesis by simp
    qed
    have "eng' = sdrop (d + n) eng" by (simp add: e e1 sdrop_add)
    moreover have "d + n \<le> 3 * (maxIterationsInner - iterationsInner)"
      using d n True by linarith
    ultimately show ?thesis by blast
  qed
qed

lemma hypothesize_pose_draws:
  "\<exists>n \<le> 18000. snd (snd (hypothesize_pose Kabsch cfg img res eng)) = sdrop n eng"
proof -
  obtain selected eng' where sel: "select_points cfg img 0 [] eng = (selected, eng')"
    by (cases "select_points cfg img 0 [] eng")
  from select_points_draws [OF sel] obtain n where "n \<le> 18000" "eng' = sdrop n eng"
    by (auto simp: maxIterationsInner_def)
  moreover have "snd (snd (hypothesize_pose Kabsch cfg img res eng)) = eng'"
    by (simp add: hypothesize_pose_single_attempt sel)
  ultimately show ?thesis by blast
qed

lemma spec_attempt_fails:
  "select_points cfg img 0 [] eng = (selected, eng') \<Longrightarrow>
   length selected \<noteq> m_nbPointsForKabschBoostrap cfg \<Longrightarrow>
   spec_hypothesize_attempts Kabsch cfg img (Suc n) res eng
     = spec_hypothesize_attempts Kabsch cfg img n res eng'"
  by simp

lemma spec_attempt_succeeds:
  "select_points cfg img 0 [] eng = (selected, eng') \<Longrightarrow>
   length selected = m_nbPointsForKabschBoostrap cfg \<Longrightarrow>
   spec_hypothesize_attempts Kabsch cfg img (Suc n) res eng
     = (True, make_candidate Kabsch img selected, eng')"
  by simp

text \<open>
  C1 as the specification states it fails. On the row image, with an engine whose first
  12000 numbers draw the invalid pixel 0 and whose next numbers draw the pixels 1, 2 and
  3, the first attempt uses its 6000 passes without a point and \<open>hypothesize_pose\<close>
  returns false; a second outer attempt, which the specification describes, would have
  assembled the three points.
\<close>

theorem hypothesize_pose_no_second_attempt:
  "fst (hypothesize_pose identity_Kabsch constructed row_image blank_candidate
          (replicate 12000 0 @- row_engine)) = False
   \<and> fst (spec_hypothesize_pose identity_Kabsch constructed row_image blank_candidate
          (replicate 12000 0 @- row_engine)) = True"
proof -
  let ?c = "make_candidate identity_Kabsch row_image [(Suc 0, 0, 0), (2, 0, 0), (3, 0, 0)]"
  have code: "hypothesize_pose identity_Kabsch constructed row_image blank_candidate
      (replicate 12000 0 @- row_engine) = (False, blank_candidate, row_engine)"
    by (simp add: hypothesize_pose_single_attempt row_select_points_exhausted
        constructed_fields)
  have "spec_hypothesize_attempts identity_Kabsch constructed row_image (Suc 19)
      blank_candidate (replicate 12000 0 @- row_engine)
    = spec_hypothesize_attempts identity_Kabsch constructed row_image 19
      blank_candidate row_engine"
    by (rule spec_attempt_fails [OF row_select_points_exhausted])
       (simp add: constructed_fields)
  also have "\<dots> = spec_hypothesize_attempts identity_Kabsch constructed row_image (Suc 18)
      blank_candidate row_engine"
    by simp
  also have "\<dots> = (True, ?c, sconst 0)"
    by (rule spec_attempt_succeeds [OF select_points_row]) (simp add: constructed_fields)
  finally have "spec_hypothesize_attempts identity_Kabsch constructed row_image 20
      blank_candidate (replicate 12000 0 @- row_engine) = (True, ?c, sconst 0)"
    by simp
  then have spec: "fst (spec_hypothesize_pose identity_Kabsch constructed row_image
      blank_candidate (replicate 12000 0 @- row_engine)) = True"
    by (simp add: spec_hypothesize_pose_def)
  from code spec show ?thesis by simp
qed

text \<open>
  C1, amended. \<open>hypothesize_pose\<close> makes one attempt of at most 6000 passes through
  its sampling loop (at most three random draws each, so at most 18000 draws from the
  engine), and returns a hypothesis if and only if that attempt assembles its 3 (in
  general \<open>nbPointsForKabschBootstrap\<close>) points; the outer loop never starts a second
  attempt. On success the pose of the returned candidate is the Kabsch alignment of the
  local camera-space points of the chosen pixels to the world points of the chosen modes,
  its inliers are exactly the chosen (pixel index, mode index) pairs and its energy is 0;
  on failure the candidate of the caller is left as it was.
\<close>

theorem hypothesize_pose_one_attempt:
  "(fst (hypothesize_pose Kabsch cfg img res eng)
      \<longleftrightarrow> length (fst (select_points cfg img 0 [] eng)) = m_nbPointsForKabschBoostrap cfg)
   \<and> (\<forall>candidate eng'.
        hypothesize_pose Kabsch cfg img res eng = (True, candidate, eng') \<longrightarrow>
          cameraPose candidate
            = Kabsch (map (feature_local_position img) (fst (select_points cfg img 0 [] eng)))
                     (map (mode_world_position img) (fst (select_points cfg img 0 [] eng)))
        \<and> inliers candidate
            = map (\<lambda>(x, y, modeIdx). (y * noDims_width img + x, int modeIdx))
                  (fst (select_points cfg img 0 [] eng))
        \<and> length (inliers candidate) = m_nbPointsForKabschBoostrap cfg
        \<and> energy candidate = 0)
   \<and> (\<forall>candidate eng'.
        hypothesize_pose Kabsch cfg img res eng = (False, candidate, eng') \<longrightarrow>
          candidate = res)
   \<and> (\<exists>n \<le> 18000. snd (snd (hypothesize_pose Kabsch cfg img res eng)) = sdrop n eng)"
proof (intro conjI allI impI)
  show "fst (hypothesize_pose Kabsch cfg img res eng)
      \<longleftrightarrow> length (fst (select_points cfg img 0 [] eng)) = m_nbPointsForKabschBoostrap cfg"
    unfolding hypothesize_pose_single_attempt
    by (cases "select_points cfg img 0 [] eng") simp
next
  fix candidate eng'
  assume ok: "hypothesize_pose Kabsch cfg img res eng = (True, candidate, eng')"
  note made = hypothesize_pose_True [OF ok]
  show "cameraPose candidate
      = Kabsch (map (feature_local_position img) (fst (select_points cfg img 0 [] eng)))
               (map (mode_world_position img) (fst (select_points cfg img 0 [] eng)))"
    using made by (simp add: make_candidate_def)
  show "inliers candidate
      = map (\<lambda>(x, y, modeIdx). (y * noDims_width img + x, int modeIdx))
            (fst (select_points cfg img 0 [] eng))"
    using made by (simp add: make_candidate_def)
  show "length (inliers candidate) = m_nbPointsForKabschBoostrap cfg"
    using made by (simp add: make_candidate_def)
  show "energy candidate = 0"
    using made by (simp add: make_candidate_def)
next
  fix candidate eng'
  assume "hypothesize_pose Kabsch cfg img res eng = (False, candidate, eng')"
  then show "candidate = res"
    unfolding hypothesize_pose_single_attempt
    by (cases "select_points cfg img 0 [] eng") (simp split: if_splits)
next
  show "\<exists>n \<le> 18000. snd (snd (hypothesize_pose Kabsch cfg img res eng)) = sdrop n eng"
    by (rule hypothesize_pose_draws)
qed

theorem hypothesize_pose_one_attempt_witness:
  "hypothesize_pose identity_Kabsch constructed row_image blank_candidate row_engine
     = (True, \<lparr> cameraPose = identity_pose, inliers = [(1, 0), (2, 0), (3, 0)], energy = 0,
                cameraId = - 1 \<rparr>, sconst 0)
   \<and> fst (select_points constructed row_image 0 [] row_engine)
       = [(1, 0, 0), (2, 0, 0), (3, 0, 0)]
   \<and> length [(1 :: nat, 0 :: int), (2, 0), (3, 0)] = m_nbPointsForKabschBoostrap constructed
   \<and> hypothesize_pose identity_Kabsch constructed row_image blank_candidate
        (replicate 12000 0 @- row_engine) = (False, blank_candidate, row_engine)"
proof -
  let ?c = "\<lparr> cameraPose = identity_pose, inliers = [(1, 0), (2, 0), (3, 0)], energy = 0,
              cameraId = - 1 \<rparr>"
  have run: "hypothesize_pose identity_Kabsch constructed row_image blank_candidate row_engine
      = (True, ?c, sconst 0)"
    by (simp add: hypothesize_pose_single_attempt select_points_row constructed_fields
        make_candidate_def row_image_fields identity_Kabsch_def)
  have sel: "fst (select_points constructed row_image 0 [] row_engine)
       = [(1, 0, 0), (2, 0, 0), (3, 0, 0)]"
    by (simp add: select_points_row)
  have fail: "hypothesize_pose identity_Kabsch constructed row_image blank_candidate
        (replicate 12000 0 @- row_engine) = (False, blank_candidate, row_engine)"
    by (simp add: hypothesize_pose_single_attempt row_select_points_exhausted
        constructed_fields)
  note inst = hypothesize_pose_one_attempt [of identity_Kabsch constructed row_image
      blank_candidate row_engine]
  have "length (inliers ?c) = m_nbPointsForKabschBoostrap constructed"
    using inst [THEN conjunct2, THEN conjunct1] run by blast
  then have len: "length [(1 :: nat, 0 :: int), (2, 0), (3, 0)]
      = m_nbPointsForKabschBoostrap constructed" by simp
  from run sel len fail show ?thesis by blast
qed

section \<open>Properties of the collaborative pose optimiser\<close>

lemma add_to_clusters_receiving:
  "add_to_clusters P clusters sample = (confident, clusters') \<Longrightarrow>
   \<exists>n < length clusters'.
      clusters' ! n = (if n < length clusters then clusters ! n @ [sample] else [sample])
    \<and> (\<forall>k < length clusters'. k \<noteq> n \<longrightarrow> k < length clusters \<and> clusters' ! k = clusters ! k)
    \<and> length clusters' = (if n < length clusters then length clusters else Suc (length clusters))
    \<and> (confident \<longleftrightarrow> confidence_threshold P \<le> length (clusters' ! n))"
proof (induction clusters arbitrary: confident clusters')
  case Nil
  then have "clusters' = [[sample]]" "confident \<longleftrightarrow> confidence_threshold P \<le> 1" by auto
  then show ?case by auto
next
  case (Cons cluster rest)
  show ?case
  proof (cases "poses_close P (representative_pose P cluster) sample")
    case True
    with Cons.prems have c: "clusters' = (cluster @ [sample]) # rest"
      and f: "confident \<longleftrightarrow> confidence_threshold P \<le> length (cluster @ [sample])" by auto
    show ?thesis
    proof (intro exI [of _ 0] conjI allI impI)
      show "0 < length clusters'" by (simp add: c)
      show "clusters' ! 0 = (if 0 < length (cluster # rest)
          then (cluster # rest) ! 0 @ [sample] else [sample])" by (simp add: c)
      show "length clusters' = (if 0 < length (cluster # rest)
          then length (cluster # rest) else Suc (length (cluster # rest)))" by (simp add: c)
      show "confident \<longleftrightarrow> confidence_threshold P \<le> length (clusters' ! 0)"
        using f by (simp add: c)
    next
      fix k assume "k < length clusters'" "k \<noteq> 0"
      then show "k < length (cluster # rest)" "clusters' ! k = (cluster # rest) ! k"
        by (simp_all add: c nth_Cons')
    qed
  next
    case False
    with Cons.prems obtain rest' where
      r: "add_to_clusters P rest sample = (confident, rest')" and c: "clusters' = cluster # rest'"
      by (auto split: prod.splits)
    from Cons.IH [OF r] obtain n where n: "n < length rest'"
      and recv: "rest' ! n = (if n < length rest then rest ! n @ [sample] else [sample])"
      and others: "\<forall>k < length rest'. k \<noteq> n \<longrightarrow> k < length rest \<and> rest' ! k = rest ! k"
      and len: "length rest' = (if n < length rest then length rest else Suc (length rest))"
      and flag: "confident \<longleftrightarrow> confidence_threshold P \<le> length (rest' ! n)"
      by blast
    show ?thesis
    proof (intro exI [of _ "Suc n"] conjI allI impI)
      show "Suc n < length clusters'" using n by (simp add: c)
      show "clusters' ! Suc n = (if Suc n < length (cluster # rest)
          then (cluster # rest) ! Suc n @ [sample] else [sample])"
        using recv by (simp add: c)
      show "length clusters' = (if Suc n < length (cluster # rest)
          then length (cluster # rest) else Suc (length (cluster # rest)))"
        using len by (simp add: c)
      show "confident \<longleftrightarrow> confidence_threshold P \<le> length (clusters' ! Suc n)"
        using flag by (simp add: c)
    next
      fix k assume k: "k < length clusters'" "k \<noteq> Suc n"
      show "k < length (cluster # rest)"
      proof (cases k)
        case 0 then show ?thesis by simp
      next
        case (Suc k')
        with k others show ?thesis by (auto simp: c)
      qed
      show "clusters' ! k = (cluster # rest) ! k"
      proof (cases k)
        case 0 then show ?thesis by (simp add: c)
      next
        case (Suc k')
        with k others show ?thesis by (auto simp: c)
      qed
    qed
  qed
qed


lemma sub_receiving_cluster:
  fixes mode :: 'm
  assumes "add_relative_transform_sample_sub P st sceneI sceneJ sample mode = (confident, st')"
  shows "\<exists>clusters' n.
      m_relativeTransformSamples st' (sceneI, sceneJ) = Some clusters'
    \<and> n < length clusters'
    \<and> clusters' ! n \<noteq> [] \<and> last (clusters' ! n) = sample
    \<and> (confident \<longleftrightarrow> confidence_threshold P \<le> length (clusters' ! n))"
proof -
  define clusters where "clusters = (case m_relativeTransformSamples st (sceneI, sceneJ) of
      None \<Rightarrow> [] | Some cs \<Rightarrow> cs)"
  obtain b clusters' where a: "add_to_clusters P clusters sample = (b, clusters')"
    by (cases "add_to_clusters P clusters sample")
  with assms have b: "b = confident"
    and st': "m_relativeTransformSamples st' (sceneI, sceneJ) = Some clusters'"
    by (auto simp: add_relative_transform_sample_sub_def clusters_def)
  from add_to_clusters_receiving [OF a] obtain n where "n < length clusters'"
    "clusters' ! n = (if n < length clusters then clusters ! n @ [sample] else [sample])"
    "b \<longleftrightarrow> confidence_threshold P \<le> length (clusters' ! n)"
    by blast
  then have "n < length clusters' \<and> clusters' ! n \<noteq> [] \<and> last (clusters' ! n) = sample
      \<and> (confident \<longleftrightarrow> confidence_threshold P \<le> length (clusters' ! n))"
    using b by (auto split: if_splits)
  with st' show ?thesis by blast
qed

lemma upt_flags:
  "f 1 # map (\<lambda>k. f (Suc k)) [1..<Suc n] = map f [1..<Suc (Suc n)]"
proof -
  have "[1..<Suc (Suc n)] = 1 # map Suc [1..<Suc n]"
    by (simp add: upt_conv_Cons map_Suc_upt del: upt_Suc)
  then show ?thesis by (simp add: comp_def del: upt_Suc)
qed

lemma add_samples_consistent:
  fixes mode :: 'm
  assumes "m_relativeTransformSamples st (sceneI, sceneJ) = Some [cluster]"
    and "cluster \<noteq> []" and "set cluster \<subseteq> S" and "set samples \<subseteq> S"
    and "\<forall>c x. c \<noteq> [] \<and> set c \<subseteq> S \<and> x \<in> S
           \<longrightarrow> poses_close P (representative_pose P c) x"
  shows "fst (add_samples P st sceneI sceneJ samples mode)
     = map (\<lambda>k. confidence_threshold P \<le> length cluster + k) [1..<Suc (length samples)]"
  using assms(1-4)
proof (induction samples arbitrary: st cluster)
  case Nil
  then show ?case by simp
next
  case (Cons x rest)
  have close: "poses_close P (representative_pose P cluster) x"
    using assms(5) Cons.prems by simp
  define st' where "st' = st \<lparr> m_relativeTransformSamples :=
      (m_relativeTransformSamples st)((sceneI, sceneJ) \<mapsto> [cluster @ [x]]) \<rparr>"
  have step: "add_relative_transform_sample_sub P st sceneI sceneJ x mode
      = (confidence_threshold P \<le> length cluster + 1, st')"
    using close Cons.prems(1) by (simp add: add_relative_transform_sample_sub_def st'_def)
  have IH: "fst (add_samples P st' sceneI sceneJ rest mode)
     = map (\<lambda>k. confidence_threshold P \<le> length (cluster @ [x]) + k)
           [1..<Suc (length rest)]"
    by (rule Cons.IH) (use Cons.prems in \<open>simp_all add: st'_def\<close>)
  obtain flags st'' where rec: "add_samples P st' sceneI sceneJ rest mode = (flags, st'')"
    by (cases "add_samples P st' sceneI sceneJ rest mode")
  have "add_samples P st sceneI sceneJ (x # rest) mode
      = ((confidence_threshold P \<le> length cluster + 1) # flags, st'')"
    using step rec by simp
  then have "fst (add_samples P st sceneI sceneJ (x # rest) mode)
      = (confidence_threshold P \<le> length cluster + 1)
        # map (\<lambda>k. confidence_threshold P \<le> length cluster + Suc k) [1..<Suc (length rest)]"
    using IH rec by (simp del: upt_Suc)
  also have "\<dots> = map (\<lambda>k. confidence_threshold P \<le> length cluster + k)
      [1..<Suc (Suc (length rest))]"
    by (rule upt_flags [of "\<lambda>k. confidence_threshold P \<le> length cluster + k"])
  finally show ?case by (simp del: upt_Suc)
qed

lemma add_samples_fresh:
  fixes mode :: 'm
  assumes "m_relativeTransformSamples st (sceneI, sceneJ) = None"
    and "\<forall>c x. c \<noteq> [] \<and> set c \<subseteq> set samples \<and> x \<in> set samples
           \<longrightarrow> poses_close P (representative_pose P c) x"
  shows "fst (add_samples P st sceneI sceneJ samples mode)
     = map (\<lambda>k. confidence_threshold P \<le> k) [1..<Suc (length samples)]"
proof (cases samples)
  case Nil
  then show ?thesis by simp
next
  case (Cons x rest)
  define st' where "st' = st \<lparr> m_relativeTransformSamples :=
      (m_relativeTransformSamples st)((sceneI, sceneJ) \<mapsto> [[x]]) \<rparr>"
  have step: "add_relative_transform_sample_sub P st sceneI sceneJ x mode
      = (confidence_threshold P \<le> 1, st')"
    using assms(1) by (simp add: add_relative_transform_sample_sub_def st'_def)
  have "fst (add_samples P st' sceneI sceneJ rest mode)
     = map (\<lambda>k. confidence_threshold P \<le> length [x] + k) [1..<Suc (length rest)]"
    by (rule add_samples_consistent [where S = "set samples"])
       (use assms(2) Cons in \<open>auto simp: st'_def\<close>)
  moreover obtain flags st'' where
    rec: "add_samples P st' sceneI sceneJ rest mode = (flags, st'')"
    by (cases "add_samples P st' sceneI sceneJ rest mode")
  moreover have "add_samples P st sceneI sceneJ (x # rest) mode
      = ((confidence_threshold P \<le> 1) # flags, st'')"
    using step rec by simp
  ultimately have "fst (add_samples P st sceneI sceneJ (x # rest) mode)
      = (confidence_threshold P \<le> 1)
        # map (\<lambda>k. confidence_threshold P \<le> Suc k) [1..<Suc (length rest)]"
    by (simp del: upt_Suc)
  also have "\<dots> = map (\<lambda>k. confidence_threshold P \<le> k) [1..<Suc (Suc (length rest))]"
    by (rule upt_flags [of "\<lambda>k. confidence_threshold P \<le> k"])
  finally show ?thesis by (simp add: Cons del: upt_Suc)
qed


lemma line_first_call:
  "add_relative_transform_sample_sub line_params fresh_optimiser ''a'' ''b'' 0 ()
     = (False, fresh_optimiser \<lparr> m_relativeTransformSamples := [(''a'', ''b'') \<mapsto> [[0]]] \<rparr>)"
  by (simp add: add_relative_transform_sample_sub_def line_params_def fresh_optimiser_def)

lemma line_second_call:
  "add_relative_transform_sample_sub line_params
     (fresh_optimiser \<lparr> m_relativeTransformSamples := [(''a'', ''b'') \<mapsto> [[0]]] \<rparr>)
     ''a'' ''b'' 0 ()
   = (True, fresh_optimiser \<lparr> m_relativeTransformSamples := [(''a'', ''b'') \<mapsto> [[0, 0]]] \<rparr>)"
  by (simp add: add_relative_transform_sample_sub_def line_params_def fresh_optimiser_def)

text \<open>
  C2 as the specification states it fails: the public operation returns no value. The
  first call of the helper below answers false and the second true, and the public
  operation returns the same in both states.
\<close>

theorem public_operation_returns_no_flag:
  "fst (add_relative_transform_sample_sub line_params fresh_optimiser ''a'' ''b'' 0 ()) = False
   \<and> fst (add_relative_transform_sample_sub line_params
        (fresh_optimiser \<lparr> m_relativeTransformSamples := [(''a'', ''b'') \<mapsto> [[0]]] \<rparr>)
        ''a'' ''b'' 0 ()) = True
   \<and> fst (add_relative_transform_sample line_params fresh_optimiser ''a'' ''b'' 0 ())
     = fst (add_relative_transform_sample line_params
        (fresh_optimiser \<lparr> m_relativeTransformSamples := [(''a'', ''b'') \<mapsto> [[0]]] \<rparr>)
        ''a'' ''b'' 0 ())"
  by (simp add: line_first_call line_second_call)

text \<open>
  C2, amended. The private helper \<open>add_relative_transform_sample_sub\<close> returns a
  boolean that tells whether the cluster that received the sample has now reached the
  confidence threshold; for mutually consistent samples of a fresh scene pair the flag of
  the \<open>k\<close>-th call is true exactly from the call that reaches the threshold on. The
  public operation \<open>add_relative_transform_sample\<close> returns no value.
\<close>

theorem sub_reports_confidence:
  fixes mode :: 'm
  shows "(\<forall>confident st'.
      add_relative_transform_sample_sub P st sceneI sceneJ sample mode = (confident, st') \<longrightarrow>
        (\<exists>clusters' n.
            m_relativeTransformSamples st' (sceneI, sceneJ) = Some clusters'
          \<and> n < length clusters'
          \<and> clusters' ! n \<noteq> [] \<and> last (clusters' ! n) = sample
          \<and> (confident \<longleftrightarrow> confidence_threshold P \<le> length (clusters' ! n))))
   \<and> (m_relativeTransformSamples st (sceneI, sceneJ) = None
        \<and> (\<forall>c x. c \<noteq> [] \<and> set c \<subseteq> set samples \<and> x \<in> set samples
               \<longrightarrow> poses_close P (representative_pose P c) x)
        \<longrightarrow> fst (add_samples P st sceneI sceneJ samples mode)
              = map (\<lambda>k. confidence_threshold P \<le> k) [1..<Suc (length samples)])
   \<and> (\<exists>st'. add_relative_transform_sample P st sceneI sceneJ sample mode = ((), st'))"
proof (intro conjI allI impI)
  fix confident st'
  assume "add_relative_transform_sample_sub P st sceneI sceneJ sample mode = (confident, st')"
  then show "\<exists>clusters' n.
            m_relativeTransformSamples st' (sceneI, sceneJ) = Some clusters'
          \<and> n < length clusters'
          \<and> clusters' ! n \<noteq> [] \<and> last (clusters' ! n) = sample
          \<and> (confident \<longleftrightarrow> confidence_threshold P \<le> length (clusters' ! n))"
    by (rule sub_receiving_cluster)
next
  assume "m_relativeTransformSamples st (sceneI, sceneJ) = None
        \<and> (\<forall>c x. c \<noteq> [] \<and> set c \<subseteq> set samples \<and> x \<in> set samples
               \<longrightarrow> poses_close P (representative_pose P c) x)"
  then show "fst (add_samples P st sceneI sceneJ samples mode)
              = map (\<lambda>k. confidence_threshold P \<le> k) [1..<Suc (length samples)]"
    using add_samples_fresh [of st sceneI sceneJ samples P mode] by blast
next
  show "\<exists>st'. add_relative_transform_sample P st sceneI sceneJ sample mode = ((), st')"
    by (cases "add_relative_transform_sample P st sceneI sceneJ sample mode") simp
qed

theorem sub_reports_confidence_witness:
  "m_relativeTransformSamples fresh_optimiser (''a'', ''b'') = None
   \<and> fst (add_samples line_params fresh_optimiser ''a'' ''b'' [0, 0, 0] ())
       = [False, True, True]"
proof -
  have fresh: "m_relativeTransformSamples fresh_optimiser (''a'', ''b'') = None"
    by (simp add: fresh_optimiser_def)
  have consistent: "\<forall>c x. c \<noteq> [] \<and> set c \<subseteq> set [0, 0, 0 :: int] \<and> x \<in> set [0, 0, 0]
          \<longrightarrow> poses_close line_params (representative_pose line_params c) x"
  proof (intro allI impI)
    fix c :: "int list" and x :: int
    assume a: "c \<noteq> [] \<and> set c \<subseteq> set [0, 0, 0 :: int] \<and> x \<in> set [0, 0, 0]"
    then have "hd c \<in> set c" by simp
    with a have "hd c \<in> set [0, 0, 0 :: int]" by blast
    then have "hd c = 0" by simp
    moreover from a have "x = 0" by simp
    ultimately have "hd c = 0" "x = 0" by simp_all
    then show "poses_close line_params (representative_pose line_params c) x"
      by (simp add: line_params_def)
  qed
  have "fst (add_samples line_params fresh_optimiser ''a'' ''b'' [0, 0, 0] ())
      = map (\<lambda>k. confidence_threshold line_params \<le> k) [1..<Suc (length [0, 0, 0 :: int])]"
    using sub_reports_confidence [of line_params fresh_optimiser "''a''" "''b''" 0 "()"
        "[0, 0, 0]", THEN conjunct2, THEN conjunct1] fresh consistent
    by blast
  also have "\<dots> = [False, True, True]"
    by (simp add: line_params_def upt_conv_Cons)
  finally show ?thesis using fresh by blast
qed

end
